theory Spec2Isabelle
  imports Complex_Main "HOL-Library.AList"
begin

section \<open>Label maps and Python dictionaries\<close>

text \<open>
  A label map is a two-dimensional numpy array of integers, one per pixel. It is
  modelled as the list of its rows; a pixel is the integer the array holds. Where a
  function writes into an array, the dtype of the array is an argument of its model.

  A Python dict is modelled by the list of its items in iteration order. The keys
  of a dict are pairwise different, which is the hypothesis
  \<open>distinct (map fst d)\<close> where a statement depends on it; a lookup reads the
  list with \<open>map_of\<close>.
\<close>

type_synonym label_map = "int list list"

section \<open>Python errors\<close>

text \<open>
  The exceptions the modelled functions can raise, as values. A function that can
  raise returns \<open>error + 'a\<close>, with \<open>Inl\<close> for the exception.
\<close>

datatype error =
  ValueError | KeyError | IndexError | TypeError | ZeroDivisionError | OverflowError | CvError

section \<open>remap_parts\<close>

text \<open>
  \<^verbatim>\<open>
  new_part_map = np.zeros_like(part_map)
  for old_id, new_id in remap_dict.items():
      mask = part_map == old_id
      new_part_map[mask] = new_id
  return new_part_map
  \<close>
  \<open>np.zeros_like\<close> gives an array of the dtype of \<open>part_map\<close>, and the assignment
  stores the Python int \<open>new_id\<close> into that array. The integer dtypes of numpy are
  modelled, with what numpy 1.x (before 1.24, the versions that still have
  \<open>np.int\<close>, which this module uses) on 64-bit Linux does on such a store: it reads
  the Python int as a C long (for the 32-bit and 64-bit unsigned dtypes as a C
  unsigned long first), raises OverflowError when it does not fit, and cuts the
  result down to the width of the dtype, which wraps a value that is out of range.
\<close>

datatype dtype = UInt8 | UInt16 | UInt32 | UInt64 | Int8 | Int16 | Int32 | Int64

fun dtype_bits :: "dtype \<Rightarrow> nat" where
  "dtype_bits UInt8 = 8"
| "dtype_bits UInt16 = 16"
| "dtype_bits UInt32 = 32"
| "dtype_bits UInt64 = 64"
| "dtype_bits Int8 = 8"
| "dtype_bits Int16 = 16"
| "dtype_bits Int32 = 32"
| "dtype_bits Int64 = 64"

fun dtype_signed :: "dtype \<Rightarrow> bool" where
  "dtype_signed UInt8 = False"
| "dtype_signed UInt16 = False"
| "dtype_signed UInt32 = False"
| "dtype_signed UInt64 = False"
| "dtype_signed Int8 = True"
| "dtype_signed Int16 = True"
| "dtype_signed Int32 = True"
| "dtype_signed Int64 = True"

text \<open>The least and the greatest value an array of the dtype can hold.\<close>

definition dtype_min :: "dtype \<Rightarrow> int" where
  "dtype_min dt = (if dtype_signed dt then - (2 ^ (dtype_bits dt - 1)) else 0)"

definition dtype_max :: "dtype \<Rightarrow> int" where
  "dtype_max dt =
     (if dtype_signed dt then 2 ^ (dtype_bits dt - 1) - 1 else 2 ^ dtype_bits dt - 1)"

text \<open>The C cast to the width of the dtype: the value modulo \<open>2 ^ bits\<close>, taken in the
  range of the dtype.\<close>

definition np_wrap :: "dtype \<Rightarrow> int \<Rightarrow> int" where
  "np_wrap dt v = dtype_min dt + (v - dtype_min dt) mod 2 ^ dtype_bits dt"

text \<open>Whether the Python int can be read as a C long, or as a C unsigned long where
  numpy tries that first.\<close>

definition fits_c_long :: "dtype \<Rightarrow> int \<Rightarrow> bool" where
  "fits_c_long dt v =
     (- (2 ^ 63) \<le> v \<and> v < (if dt = UInt32 \<or> dt = UInt64 then 2 ^ 64 else 2 ^ 63))"

text \<open>What an array of the dtype holds after the Python int \<open>v\<close> is assigned to one of
  its elements.\<close>

definition np_store :: "dtype \<Rightarrow> int \<Rightarrow> error + int" where
  "np_store dt v = (if fits_c_long dt v then Inr (np_wrap dt v) else Inl OverflowError)"

definition zeros_like :: "label_map \<Rightarrow> label_map" where
  "zeros_like part_map = map (map (\<lambda>_. 0)) part_map"

text \<open>One pass of the loop body, for the value \<open>stored\<close> that the array takes for
  \<open>new_id\<close>: the mask is taken from the input map, the write goes to the output map.\<close>

definition assign_masked :: "label_map \<Rightarrow> int \<Rightarrow> int \<Rightarrow> label_map \<Rightarrow> label_map" where
  "assign_masked part_map old_id stored new_part_map =
     map2 (map2 (\<lambda>p out. if p = old_id then stored else out)) part_map new_part_map"

text \<open>numpy converts the value before it looks at the mask, so a value that does not
  convert raises also where no pixel carries \<open>old_id\<close>.\<close>

fun remap_loop ::
  "dtype \<Rightarrow> label_map \<Rightarrow> (int \<times> int) list \<Rightarrow> label_map \<Rightarrow> error + label_map" where
  "remap_loop dt part_map [] new_part_map = Inr new_part_map"
| "remap_loop dt part_map ((old_id, new_id) # items) new_part_map =
     (case np_store dt new_id of
        Inl e \<Rightarrow> Inl e
      | Inr stored \<Rightarrow>
          remap_loop dt part_map items (assign_masked part_map old_id stored new_part_map))"

text \<open>The first argument is the dtype of \<open>part_map\<close>.\<close>

definition remap_parts :: "dtype \<Rightarrow> label_map \<Rightarrow> (int \<times> int) list \<Rightarrow> error + label_map" where
  "remap_parts dt part_map remap_dict =
     remap_loop dt part_map remap_dict (zeros_like part_map)"

text \<open>What the table does to one pixel: the mapped value, background otherwise; and
  the table with every value as the array stores it.\<close>

definition lookup_or_background :: "(int \<times> int) list \<Rightarrow> int \<Rightarrow> int" where
  "lookup_or_background remap_dict p =
     (case map_of remap_dict p of None \<Rightarrow> 0 | Some new_id \<Rightarrow> new_id)"

definition stored_items :: "dtype \<Rightarrow> (int \<times> int) list \<Rightarrow> (int \<times> int) list" where
  "stored_items dt remap_dict = map (\<lambda>(old_id, new_id). (old_id, np_wrap dt new_id)) remap_dict"

section \<open>numpy floats\<close>

text \<open>
  A numpy float is a finite number, an infinity or NaN. Finite values are exact
  reals here: the rounding of IEEE arithmetic is not modelled. numpy's division of
  float arrays does not raise on a zero divisor (it warns): it yields an infinity,
  or NaN for \<open>0 / 0\<close>.
\<close>

datatype npfloat = Fin real | PosInf | NegInf | NaN

definition true_divide :: "real \<Rightarrow> real \<Rightarrow> npfloat" where
  "true_divide a b =
     (if b \<noteq> 0 then Fin (a / b)
      else if a > 0 then PosInf else if a < 0 then NegInf else NaN)"

section \<open>compute_iou\<close>

text \<open>
  \<^verbatim>\<open>
  unique_labels = np.unique(label)
  num_unique_labels = len(unique_labels)
  Intersection = np.zeros(num_unique_labels)
  Union = np.zeros(num_unique_labels)
  for index, val in enumerate(unique_labels):
      pred_i = pred == val
      label_i = label == val
      Intersection[index] = float(np.sum(np.logical_and(label_i, pred_i)))
      Union[index] = float(np.sum(np.logical_or(label_i, pred_i)))
  return Intersection / Union, unique_labels
  \<close>
\<close>

text \<open>\<open>np.unique\<close>: the sorted distinct values of the flattened array.\<close>

definition np_unique :: "label_map \<Rightarrow> int list" where
  "np_unique a = sort (remdups (concat a))"

text \<open>\<open>a == val\<close>, elementwise.\<close>

definition eq_mask :: "label_map \<Rightarrow> int \<Rightarrow> bool list list" where
  "eq_mask a val = map (map (\<lambda>p. p = val)) a"

text \<open>
  An elementwise binary operation on two 2-D arrays with numpy's broadcasting: two
  axes match when they are equally long or one of them has length 1 (it is then
  repeated); anything else raises ValueError. An array without rows has no width
  in this model.
\<close>

definition broadcast_row :: "('a \<Rightarrow> 'b \<Rightarrow> 'c) \<Rightarrow> 'a list \<Rightarrow> 'b list \<Rightarrow> error + 'c list" where
  "broadcast_row f xs ys =
     (if length xs = length ys then Inr (map2 f xs ys)
      else if length xs = 1 then Inr (map (f (hd xs)) ys)
      else if length ys = 1 then Inr (map (\<lambda>x. f x (hd ys)) xs)
      else Inl ValueError)"

fun collect :: "(error + 'a) list \<Rightarrow> error + 'a list" where
  "collect [] = Inr []"
| "collect (Inl e # rs) = Inl e"
| "collect (Inr x # rs) = (case collect rs of Inl e \<Rightarrow> Inl e | Inr xs \<Rightarrow> Inr (x # xs))"

definition broadcast2 ::
  "('a \<Rightarrow> 'b \<Rightarrow> 'c) \<Rightarrow> 'a list list \<Rightarrow> 'b list list \<Rightarrow> error + 'c list list" where
  "broadcast2 f a b =
     (if length a = length b then collect (map2 (broadcast_row f) a b)
      else if length a = 1 then collect (map (broadcast_row f (hd a)) b)
      else if length b = 1 then collect (map (\<lambda>r. broadcast_row f r (hd b)) a)
      else Inl ValueError)"

definition logical_and :: "bool list list \<Rightarrow> bool list list \<Rightarrow> error + bool list list" where
  "logical_and a b = broadcast2 (\<and>) a b"

definition logical_or :: "bool list list \<Rightarrow> bool list list \<Rightarrow> error + bool list list" where
  "logical_or a b = broadcast2 (\<or>) a b"

text \<open>\<open>float(np.sum(mask))\<close>: the number of True pixels.\<close>

definition np_sum :: "bool list list \<Rightarrow> real" where
  "np_sum m = real (length (filter id (concat m)))"

text \<open>The loop fills the arrays Intersection and Union, one slot per unique label,
  in the order of the labels; the first operation that raises ends it.\<close>

fun iou_loop :: "label_map \<Rightarrow> label_map \<Rightarrow> int list \<Rightarrow> error + (real list \<times> real list)" where
  "iou_loop pred label [] = Inr ([], [])"
| "iou_loop pred label (val # vals) =
     (let pred_i = eq_mask pred val; label_i = eq_mask label val in
      case logical_and label_i pred_i of Inl e \<Rightarrow> Inl e | Inr both \<Rightarrow>
      case logical_or label_i pred_i of Inl e \<Rightarrow> Inl e | Inr either \<Rightarrow>
      case iou_loop pred label vals of Inl e \<Rightarrow> Inl e | Inr (Intersection_arr, Union_arr) \<Rightarrow>
        Inr (np_sum both # Intersection_arr, np_sum either # Union_arr))"

definition compute_iou :: "label_map \<Rightarrow> label_map \<Rightarrow> error + (npfloat list \<times> int list)" where
  "compute_iou pred label =
     (let unique_labels = np_unique label in
      case iou_loop pred label unique_labels of Inl e \<Rightarrow> Inl e
      | Inr (Intersection_arr, Union_arr) \<Rightarrow> Inr (map2 true_divide Intersection_arr Union_arr, unique_labels))"

text \<open>
  The Jaccard index of one label value, in the words of the specification: the
  number of pixels that carry the label in both maps, divided by the number of
  pixels that carry it in at least one of them. The pixels of two maps of one
  shape are paired in row-major order.
\<close>

definition pixel_pairs :: "label_map \<Rightarrow> label_map \<Rightarrow> (int \<times> int) list" where
  "pixel_pairs pred label = zip (concat pred) (concat label)"

definition intersection_count :: "label_map \<Rightarrow> label_map \<Rightarrow> int \<Rightarrow> nat" where
  "intersection_count pred label v =
     length (filter (\<lambda>(p, l). l = v \<and> p = v) (pixel_pairs pred label))"

definition union_count :: "label_map \<Rightarrow> label_map \<Rightarrow> int \<Rightarrow> nat" where
  "union_count pred label v =
     length (filter (\<lambda>(p, l). l = v \<or> p = v) (pixel_pairs pred label))"

definition jaccard :: "label_map \<Rightarrow> label_map \<Rightarrow> int \<Rightarrow> real" where
  "jaccard pred label v =
     real (intersection_count pred label v) / real (union_count pred label v)"

text \<open>Two arrays have the same shape: as many rows, and row by row the same length.\<close>

definition same_shape :: "'a list list \<Rightarrow> 'b list list \<Rightarrow> bool" where
  "same_shape a b = (map length a = map length b)"

section \<open>Data frames\<close>

text \<open>
  A pandas DataFrame of floats: the column names in order, and the rows in index
  order, each row a dict from column name to value. A cell whose column is missing
  from the row's dict reads as NaN, as pandas fills it.
\<close>

type_synonym row = "(string \<times> npfloat) list"

record dataframe =
  df_columns :: "string list"
  df_rows :: "row list"

definition df_cell :: "dataframe \<Rightarrow> nat \<Rightarrow> string \<Rightarrow> npfloat" where
  "df_cell df i c = (case map_of (df_rows df ! i) c of None \<Rightarrow> NaN | Some v \<Rightarrow> v)"

definition df_column :: "dataframe \<Rightarrow> string \<Rightarrow> npfloat list" where
  "df_column df c = map (\<lambda>r. case map_of r c of None \<Rightarrow> NaN | Some v \<Rightarrow> v) (df_rows df)"

text \<open>
  Modelled from the spec: \<open>df_empty\<close> of the repository's module \<open>pandaslib\<close> is not
  among the sources. The specification describes the table as having a fixed column
  schema, the sample index and one column per label name; \<open>df_empty\<close> returns the
  frame with these columns and no row. The dtypes it is given are not modelled.
\<close>

definition df_empty :: "string list \<Rightarrow> dataframe" where
  "df_empty column_names = \<lparr>df_columns = column_names, df_rows = []\<rparr>"

text \<open>\<open>df.append(row, ignore_index=True)\<close>: the row goes last; keys of the row that
  are no column yet become new columns.\<close>

definition df_append :: "dataframe \<Rightarrow> row \<Rightarrow> dataframe" where
  "df_append df r =
     \<lparr>df_columns = df_columns df @ filter (\<lambda>k. k \<notin> set (df_columns df)) (map fst r),
      df_rows = df_rows df @ [r]\<rparr>"

text \<open>
  Python dicts in insertion order. Assigning to a key that is present replaces the
  value in place, a new key goes last: this is \<open>AList.update\<close>.
  \<open>dict_update d other\<close> is \<open>d.update(other)\<close>, and \<open>dict_of items\<close> is the dict a
  comprehension builds from the pairs it yields, in order.
\<close>

definition dict_update :: "('k \<times> 'v) list \<Rightarrow> ('k \<times> 'v) list \<Rightarrow> ('k \<times> 'v) list" where
  "dict_update d other = foldl (\<lambda>d (k, v). AList.update k v d) d other"

definition dict_of :: "('k \<times> 'v) list \<Rightarrow> ('k \<times> 'v) list" where
  "dict_of items = dict_update [] items"

section \<open>calculate_iou_df\<close>

text \<open>
  \<^verbatim>\<open>
  column_names = ["batch_idx"] + label_names
  dtypes = [np.int32] + [np.float32] * len(label_names)
  df = df_empty(column_names, dtypes)
  for batch_idx in range(len(predicted)):
      current_inferred = predicted[batch_idx]
      current_gt = target[batch_idx]
      iou, iou_labels = compute_iou(current_inferred, current_gt)
      df_update = {p: -1.0 for p in label_names}
      df_update.update(
          {
              p: float(np.squeeze(iou[pi == iou_labels]))
              for pi, p in enumerate(label_names)
              if pi in iou_labels
          }
      )
      df_update.update({"batch_idx": batch_idx})
      df = df.append(df_update, ignore_index=True)
  return df
  \<close>
\<close>

text \<open>\<open>iou[mask]\<close>: the entries of \<open>iou\<close> where the boolean mask is True.\<close>

definition boolean_index :: "'a list \<Rightarrow> bool list \<Rightarrow> 'a list" where
  "boolean_index a selected = map fst (filter snd (zip a selected))"

text \<open>\<open>float(np.squeeze(a))\<close>: only an array of exactly one element converts to a
  Python float.\<close>

definition float_squeeze :: "npfloat list \<Rightarrow> error + npfloat" where
  "float_squeeze a = (case a of [x] \<Rightarrow> Inr x | _ \<Rightarrow> Inl TypeError)"

text \<open>The items the second comprehension yields, in the order of \<open>enumerate\<close>.\<close>

fun present_items ::
  "npfloat list \<Rightarrow> int list \<Rightarrow> (nat \<times> string) list \<Rightarrow> error + (string \<times> npfloat) list" where
  "present_items iou iou_labels [] = Inr []"
| "present_items iou iou_labels ((pidx, p) # rest) =
     (if int pidx \<in> set iou_labels then
        (case float_squeeze (boolean_index iou (map (\<lambda>l. int pidx = l) iou_labels)) of
           Inl e \<Rightarrow> Inl e
         | Inr x \<Rightarrow>
             (case present_items iou iou_labels rest of
                Inl e \<Rightarrow> Inl e | Inr items \<Rightarrow> Inr ((p, x) # items)))
      else present_items iou iou_labels rest)"

definition sentinel :: npfloat where
  "sentinel = Fin (- 1)"

definition iou_row ::
  "label_map \<Rightarrow> label_map \<Rightarrow> string list \<Rightarrow> nat \<Rightarrow> error + row" where
  "iou_row current_inferred current_gt label_names batch_idx =
     (case compute_iou current_inferred current_gt of
        Inl e \<Rightarrow> Inl e
      | Inr (iou, iou_labels) \<Rightarrow>
          (let df_update = dict_of (map (\<lambda>p. (p, sentinel)) label_names) in
           case present_items iou iou_labels (enumerate 0 label_names) of
             Inl e \<Rightarrow> Inl e
           | Inr items \<Rightarrow>
               Inr (dict_update (dict_update df_update (dict_of items))
                      [(''batch_idx'', Fin (real batch_idx))])))"

fun iou_df_loop ::
  "label_map list \<Rightarrow> label_map list \<Rightarrow> string list \<Rightarrow> nat list \<Rightarrow> dataframe \<Rightarrow> error + dataframe" where
  "iou_df_loop predicted target label_names [] df = Inr df"
| "iou_df_loop predicted target label_names (batch_idx # idxs) df =
     (if length target \<le> batch_idx then Inl IndexError
      else
        (case iou_row (predicted ! batch_idx) (target ! batch_idx) label_names batch_idx of
           Inl e \<Rightarrow> Inl e
         | Inr df_update \<Rightarrow>
             iou_df_loop predicted target label_names idxs (df_append df df_update)))"

definition calculate_iou_df ::
  "label_map list \<Rightarrow> label_map list \<Rightarrow> string list \<Rightarrow> error + dataframe" where
  "calculate_iou_df predicted target label_names =
     iou_df_loop predicted target label_names [0 ..< length predicted]
       (df_empty (''batch_idx'' # label_names))"

text \<open>
  The row the loop appends for one sample when nothing raises: \<open>present_of\<close> lists the
  items of the second comprehension for IoU values given by \<open>f\<close>, and \<open>expected_row\<close>
  is the dict built from them, with the Jaccard index as the IoU of a label.
\<close>

definition present_of :: "(int \<Rightarrow> npfloat) \<Rightarrow> int list \<Rightarrow> string list \<Rightarrow> (string \<times> npfloat) list" where
  "present_of f iou_labels label_names =
     map (\<lambda>(pidx, p). (p, f (int pidx)))
       (filter (\<lambda>(pidx, p). int pidx \<in> set iou_labels) (enumerate 0 label_names))"

definition expected_row :: "label_map \<Rightarrow> label_map \<Rightarrow> string list \<Rightarrow> nat \<Rightarrow> row" where
  "expected_row current_inferred current_gt label_names batch_idx =
     dict_update
       (dict_update (dict_of (map (\<lambda>p. (p, sentinel)) label_names))
          (dict_of (present_of (\<lambda>v. Fin (jaccard current_inferred current_gt v))
                      (np_unique current_gt) label_names)))
       [(''batch_idx'', Fin (real batch_idx))]"

section \<open>calculate_overall_iou_from_df\<close>

text \<open>
  \<^verbatim>\<open>
  df_mean = df[df != -1].mean().to_frame().transpose()
  df_mean["overall"] = df_mean[
      filter(lambda x: x not in exclude_columns, df.columns)
  ].mean(axis=1)
  return df_mean
  \<close>
  \<open>df[df != -1]\<close> keeps a cell that differs from \<open>-1\<close> and puts NaN elsewhere;
  NaN differs from every number, so a NaN cell stays NaN. pandas' \<open>mean\<close> skips
  NaN: it divides the sum of the other values by their number, and is NaN when
  there is none.
\<close>

definition where_not_sentinel :: "npfloat \<Rightarrow> npfloat" where
  "where_not_sentinel x = (if x \<noteq> sentinel then x else NaN)"

fun fadd :: "npfloat \<Rightarrow> npfloat \<Rightarrow> npfloat" where
  "fadd (Fin a) (Fin b) = Fin (a + b)"
| "fadd NaN _ = NaN"
| "fadd _ NaN = NaN"
| "fadd PosInf NegInf = NaN"
| "fadd NegInf PosInf = NaN"
| "fadd PosInf _ = PosInf"
| "fadd _ PosInf = PosInf"
| "fadd NegInf _ = NegInf"
| "fadd _ NegInf = NegInf"

fun fdiv_count :: "npfloat \<Rightarrow> nat \<Rightarrow> npfloat" where
  "fdiv_count (Fin a) n = Fin (a / real n)"
| "fdiv_count x n = x"

definition nanmean :: "npfloat list \<Rightarrow> npfloat" where
  "nanmean xs =
     (let vals = filter (\<lambda>x. x \<noteq> NaN) xs in
      if vals = [] then NaN else fdiv_count (foldl fadd (Fin 0) vals) (length vals))"

definition calculate_overall_iou_from_df :: "dataframe \<Rightarrow> string list \<Rightarrow> dataframe" where
  "calculate_overall_iou_from_df df exclude_columns =
     (let df_mean = map (\<lambda>c. (c, nanmean (map where_not_sentinel (df_column df c)))) (df_columns df);
          selected = filter (\<lambda>x. x \<notin> set exclude_columns) (df_columns df);
          overall = nanmean (map (\<lambda>c. case map_of df_mean c of None \<Rightarrow> NaN | Some v \<Rightarrow> v) selected)
      in \<lparr>df_columns = df_columns df @ filter (\<lambda>k. k \<notin> set (df_columns df)) [''overall''],
          df_rows = [AList.update ''overall'' overall df_mean]\<rparr>)"

text \<open>The arithmetic mean of a list of numbers, as the specification uses the word.\<close>

definition mean :: "real list \<Rightarrow> real" where
  "mean xs = sum_list xs / real (length xs)"

text \<open>The number a finite cell holds.\<close>

fun fin_value :: "npfloat \<Rightarrow> real" where
  "fin_value (Fin r) = r"
| "fin_value _ = 0"

text \<open>The values of a column that are not the sentinel \<open>-1\<close>, for a column of finite
  cells.\<close>

definition non_sentinel :: "dataframe \<Rightarrow> string \<Rightarrow> real list" where
  "non_sentinel df c = filter (\<lambda>x. x \<noteq> - 1) (map fin_value (df_column df c))"

text \<open>A frame with every cell changed by \<open>f\<close>, and the change that puts the sentinel
  where a cell is NaN.\<close>

definition df_map_cells :: "(npfloat \<Rightarrow> npfloat) \<Rightarrow> dataframe \<Rightarrow> dataframe" where
  "df_map_cells f df = \<lparr>df_columns = df_columns df,
                         df_rows = map (map (\<lambda>(k, v). (k, f v))) (df_rows df)\<rparr>"

definition nan_to_sentinel :: "npfloat \<Rightarrow> npfloat" where
  "nan_to_sentinel x = (if x = NaN then sentinel else x)"

section \<open>calculate_centroids\<close>

text \<open>
  \<^verbatim>\<open>
  unique_labels = np.unique(labels)
  unique_labels = set(unique_labels) - set([background])
  label_masks = [labels == label_id for label_id in unique_labels]

  def _calc_centroid(x):
      return np.array(center_of_mass(x)).astype(np.int)

  centroids = []
  centroid_labels = []
  for label_mask, label_id in zip(label_masks, unique_labels):
      if cca:
          connected_labels = measure.label(label_mask)
          connected_ids = set(np.unique(connected_labels))
          connected_ids -= set([0])  # suppress background
          connected_masks = [connected_labels == cid for cid in connected_ids]
          current_centroids = list(map(_calc_centroid, connected_masks))
          centroids += current_centroids
          centroid_labels += [label_id] * len(current_centroids)
      else:
          current_centroids = _calc_centroid(label_mask)
          centroids.append(current_centroids)
          centroid_labels.append(label_id)
  return centroids, centroid_labels
  \<close>
  Python does not specify the order in which a set is iterated; the ascending order
  stands for it here, and no statement below depends on it. The connected-component
  labelling \<open>measure.label\<close> of scikit-image is a parameter of the model.
\<close>

text \<open>\<open>set(a) - set([x])\<close>, for \<open>a\<close> sorted and without repetition.\<close>

definition set_minus :: "int list \<Rightarrow> int \<Rightarrow> int list" where
  "set_minus a x = filter (\<lambda>v. v \<noteq> x) a"

text \<open>
  scipy's \<open>center_of_mass\<close> of a 2-D mask: for each axis the sum of the index along
  that axis over the True pixels, divided by the number of True pixels; the sums run
  over the whole array, with weight 0 at a False pixel.
\<close>

definition weighted_sum :: "(nat \<Rightarrow> nat \<Rightarrow> real) \<Rightarrow> bool list list \<Rightarrow> real" where
  "weighted_sum w m =
     sum_list (map (\<lambda>(r, cells).
        sum_list (map (\<lambda>(c, b). if b then w r c else 0) (enumerate 0 cells))) (enumerate 0 m))"

definition center_of_mass :: "bool list list \<Rightarrow> npfloat \<times> npfloat" where
  "center_of_mass m =
     (let normalizer = weighted_sum (\<lambda>r c. 1) m in
      (true_divide (weighted_sum (\<lambda>r c. real r) m) normalizer,
       true_divide (weighted_sum (\<lambda>r c. real c) m) normalizer))"

text \<open>
  \<open>astype(np.int)\<close> cuts the fraction off, towards zero. The cast of NaN or of an
  infinity is not defined by C; numpy on x86-64 yields the least 64-bit integer.
\<close>

fun astype_int :: "npfloat \<Rightarrow> int" where
  "astype_int (Fin x) = (if 0 \<le> x then \<lfloor>x\<rfloor> else \<lceil>x\<rceil>)"
| "astype_int _ = - (2 ^ 63)"

definition calc_centroid :: "bool list list \<Rightarrow> int \<times> int" where
  "calc_centroid x = (case center_of_mass x of (cr, cc) \<Rightarrow> (astype_int cr, astype_int cc))"

fun centroid_loop ::
  "(bool list list \<Rightarrow> label_map) \<Rightarrow> bool \<Rightarrow> (bool list list \<times> int) list \<Rightarrow>
   (int \<times> int) list \<Rightarrow> int list \<Rightarrow> (int \<times> int) list \<times> int list" where
  "centroid_loop measure_label cca [] centroids centroid_labels = (centroids, centroid_labels)"
| "centroid_loop measure_label cca ((label_mask, label_id) # rest) centroids centroid_labels =
     (if cca then
        (let connected_labels = measure_label label_mask;
             connected_ids = set_minus (np_unique connected_labels) 0;
             connected_masks = map (eq_mask connected_labels) connected_ids;
             current_centroids = map calc_centroid connected_masks
         in centroid_loop measure_label cca rest (centroids @ current_centroids)
              (centroid_labels @ replicate (length current_centroids) label_id))
      else
        (let current_centroids = calc_centroid label_mask
         in centroid_loop measure_label cca rest (centroids @ [current_centroids])
              (centroid_labels @ [label_id])))"

definition calculate_centroids ::
  "(bool list list \<Rightarrow> label_map) \<Rightarrow> label_map \<Rightarrow> bool \<Rightarrow> int \<Rightarrow> (int \<times> int) list \<times> int list" where
  "calculate_centroids measure_label labels cca background =
     (let unique_labels = set_minus (np_unique labels) background;
          label_masks = map (eq_mask labels) unique_labels
      in centroid_loop measure_label cca (zip label_masks unique_labels) [] [])"

text \<open>
  In the words of the specification: the pixels that carry a label, and their mean
  position (row, column).
\<close>

definition pixels_of :: "label_map \<Rightarrow> int \<Rightarrow> (nat \<times> nat) set" where
  "pixels_of labels v = {(r, c). r < length labels \<and> c < length (labels ! r) \<and> labels ! r ! c = v}"

definition mean_row :: "label_map \<Rightarrow> int \<Rightarrow> real" where
  "mean_row labels v =
     (\<Sum>(r, c) \<in> pixels_of labels v. real r) / real (card (pixels_of labels v))"

definition mean_col :: "label_map \<Rightarrow> int \<Rightarrow> real" where
  "mean_col labels v =
     (\<Sum>(r, c) \<in> pixels_of labels v. real c) / real (card (pixels_of labels v))"

section \<open>semantic_remap_dict2remap_dict\<close>

text \<open>\<open>PART_LIST = list(PART_DICT_ID2STR.values())\<close>: the names in the order of their
  ids 0 to 24.\<close>

definition PART_LIST :: "string list" where
  "PART_LIST =
     [''background'', ''back'', ''chest'', ''right_hand'', ''left_hand'', ''left_foot'',
      ''right_foot'', ''back_upper_front_leg'', ''back_upper_left_leg'', ''right_upper_leg'',
      ''left_upper_leg'', ''back_right_lower_leg'', ''back_left_lower_leg'',
      ''right_lower_leg'', ''left_lower_leg'', ''left_upper_arm1'', ''right_upper_arm1'',
      ''left_upper_arm2'', ''right_upper_arm2'', ''left_lower_arm1'', ''right_lower_arm1'',
      ''left_lower_arm2'', ''right_lower_arm2'', ''left_head'', ''right_head'']"

text \<open>\<open>xs.index(x)\<close>: the first position of \<open>x\<close>; ValueError when there is none.\<close>

fun list_index :: "'a list \<Rightarrow> 'a \<Rightarrow> error + nat" where
  "list_index [] x = Inl ValueError"
| "list_index (y # ys) x =
     (if y = x then Inr 0
      else (case list_index ys x of Inl e \<Rightarrow> Inl e | Inr k \<Rightarrow> Inr (Suc k)))"

text \<open>\<open>d[k]\<close>: KeyError when the key is missing.\<close>

definition dict_get :: "('k \<times> 'v) list \<Rightarrow> 'k \<Rightarrow> error + 'v" where
  "dict_get d k = (case map_of d k of None \<Rightarrow> Inl KeyError | Some v \<Rightarrow> Inr v)"

text \<open>
  \<^verbatim>\<open>
  remap_dict = {}
  for i, new_label in enumerate(new_part_list):
      old_keys = semantic_remap_dict[new_label]
      remap_dict.update({PART_LIST.index(o): i for o in old_keys})
  return remap_dict
  \<close>
  \<open>index_items\<close> yields the items of the comprehension; the first name that is not in
  \<open>PART_LIST\<close> raises.
\<close>

fun index_items :: "string list \<Rightarrow> nat \<Rightarrow> error + (int \<times> int) list" where
  "index_items [] i = Inr []"
| "index_items (old # old_keys) i =
     (case list_index PART_LIST old of
        Inl e \<Rightarrow> Inl e
      | Inr k \<Rightarrow>
          (case index_items old_keys i of
             Inl e \<Rightarrow> Inl e | Inr items \<Rightarrow> Inr ((int k, int i) # items)))"

fun semantic_loop ::
  "(string \<times> string list) list \<Rightarrow> (nat \<times> string) list \<Rightarrow> (int \<times> int) list \<Rightarrow>
   error + (int \<times> int) list" where
  "semantic_loop semantic_remap_dict [] remap_dict = Inr remap_dict"
| "semantic_loop semantic_remap_dict ((i, new_label) # rest) remap_dict =
     (case dict_get semantic_remap_dict new_label of
        Inl e \<Rightarrow> Inl e
      | Inr old_keys \<Rightarrow>
          (case index_items old_keys i of
             Inl e \<Rightarrow> Inl e
           | Inr items \<Rightarrow>
               semantic_loop semantic_remap_dict rest (dict_update remap_dict (dict_of items))))"

definition semantic_remap_dict2remap_dict ::
  "(string \<times> string list) list \<Rightarrow> string list \<Rightarrow> error + (int \<times> int) list" where
  "semantic_remap_dict2remap_dict semantic_remap_dict new_part_list =
     semantic_loop semantic_remap_dict (enumerate 0 new_part_list) []"

text \<open>The old part names the table groups under a new category name.\<close>

definition group_of :: "(string \<times> string list) list \<Rightarrow> string \<Rightarrow> string list" where
  "group_of semantic_remap_dict new_label =
     (case map_of semantic_remap_dict new_label of None \<Rightarrow> [] | Some old_keys \<Rightarrow> old_keys)"

text \<open>The position of a part name in \<open>PART_LIST\<close>, for the statements; 0 stands for
  a name that has none. \<open>resolved_items\<close> lists the items one pass of the loop puts
  into the result when every old name of the group resolves.\<close>

definition part_id :: "string \<Rightarrow> nat" where
  "part_id old = (case list_index PART_LIST old of Inl e \<Rightarrow> 0 | Inr k \<Rightarrow> k)"

definition resolved_items :: "(string \<times> string list) list \<Rightarrow> nat \<times> string \<Rightarrow> (int \<times> int) list" where
  "resolved_items semantic_remap_dict p =
     map (\<lambda>old. (int (part_id old), int (fst p))) (group_of semantic_remap_dict (snd p))"

section \<open>resize_labels\<close>

text \<open>
  \<^verbatim>\<open>
  if len(labels.shape) == 2:
      return cv2.resize(labels, size, interpolation=cv2.INTER_NEAREST)
  elif len(labels.shape) == 3:
      label_list = np.split(labels, labels.shape[0], axis=0)
      label_list = list(
          map(
              lambda x: cv2.resize(
                  np.squeeze(x), size, interpolation=cv2.INTER_NEAREST
              ),
              label_list,
          )
      )
      labels = np.stack(label_list, axis=0)
      return labels
  else:
      raise ValueError("unsupported shape for labels : {}".format(labels.shape))
  \<close>
  The argument is an array of any rank: a label map, a stack of label maps, or an
  array of another rank, of which only the rank matters.
\<close>

datatype labels_array = Rank2 label_map | Rank3 "label_map list" | RankOther

text \<open>
  \<open>np.squeeze(x)\<close> for a piece \<open>x\<close> of shape (1, H, W) that \<open>np.split\<close> cut off the
  stack: every axis of length 1 goes, not the first one only. What is left is a
  number, a vector or a matrix.
\<close>

datatype squeezed = Scalar int | Vector "int list" | Matrix label_map

definition np_squeeze :: "label_map \<Rightarrow> squeezed" where
  "np_squeeze s =
     (if length s = 1 then
        (if length (hd s) = 1 then Scalar (hd (hd s)) else Vector (hd s))
      else if s \<noteq> [] \<and> length (hd s) = 1 then Vector (map hd s)
      else Matrix s)"

text \<open>
  How OpenCV (up to version 4) reads a numpy array as an image: a matrix as it is, a
  vector of length n as n rows of one column, a number as one pixel.
\<close>

fun to_mat :: "squeezed \<Rightarrow> label_map" where
  "to_mat (Matrix m) = m"
| "to_mat (Vector v) = map (\<lambda>x. [x]) v"
| "to_mat (Scalar x) = [[x]]"

text \<open>
  \<open>cv2.resize(src, (width, height), interpolation=cv2.INTER_NEAREST)\<close>: the pixel
  (y, x) of the result is the pixel of the source at row
  \<open>min(floor(y * H / height), H - 1)\<close> and column \<open>min(floor(x * W / width), W - 1)\<close>;
  an empty source or an empty target size is an error. The scale factors are exact
  here, where OpenCV computes them in floating point.
\<close>

definition cv2_resize :: "label_map \<Rightarrow> nat \<times> nat \<Rightarrow> error + label_map" where
  "cv2_resize src dsize =
     (let H = length src; W = (if src = [] then 0 else length (hd src));
          width = fst dsize; height = snd dsize
      in if H = 0 \<or> W = 0 \<or> width = 0 \<or> height = 0 then Inl CvError
         else Inr (map (\<lambda>y. map (\<lambda>x. src ! min (y * H div height) (H - 1)
                                       ! min (x * W div width) (W - 1)) [0 ..< width])
                     [0 ..< height]))"

text \<open>\<open>np.split(labels, 0, axis=0)\<close> divides by the number of sections and raises
  ZeroDivisionError for an empty stack.\<close>

fun resize_labels :: "labels_array \<Rightarrow> nat \<times> nat \<Rightarrow> error + labels_array" where
  "resize_labels (Rank2 labels) dsize =
     (case cv2_resize labels dsize of Inl e \<Rightarrow> Inl e | Inr r \<Rightarrow> Inr (Rank2 r))"
| "resize_labels (Rank3 labels) dsize =
     (if labels = [] then Inl ZeroDivisionError
      else
        (case collect (map (\<lambda>x. cv2_resize (to_mat (np_squeeze x)) dsize) labels) of
           Inl e \<Rightarrow> Inl e | Inr label_list \<Rightarrow> Inr (Rank3 label_list)))"
| "resize_labels RankOther dsize = Inl ValueError"

section \<open>Properties of remap_parts\<close>

subsection \<open>The loop, pixel by pixel\<close>

lemma map2_row_fuse:
  "map2 f xs (map2 g xs ys) = map2 (\<lambda>x y. f x (g x y)) xs ys"
proof (induction xs arbitrary: ys)
  case Nil
  show ?case by simp
next
  case (Cons x xs)
  show ?case by (cases ys) (simp_all add: Cons.IH)
qed

lemma map2_grid_fuse:
  "map2 (map2 f) m (map2 (map2 g) m n) = map2 (map2 (\<lambda>x y. f x (g x y))) m n"
proof (induction m arbitrary: n)
  case Nil
  show ?case by simp
next
  case (Cons r m)
  show ?case by (cases n) (simp_all add: Cons.IH map2_row_fuse)
qed

lemma map2_row_same: "map2 f xs (map g xs) = map (\<lambda>x. f x (g x)) xs"
  by (induction xs) simp_all

lemma map2_grid_same:
  "map2 (map2 f) m (map (map g) m) = map (map (\<lambda>x. f x (g x))) m"
  by (induction m) (simp_all add: map2_row_same)

lemma map2_row_snd: "length ys = length xs \<Longrightarrow> map2 (\<lambda>x y. y) xs ys = ys"
  by (induction xs ys rule: list_induct2') simp_all

lemma map2_grid_snd:
  "map length n = map length m \<Longrightarrow> map2 (map2 (\<lambda>x y. y)) m n = n"
proof (induction m n rule: list_induct2')
  case (4 r m s n)
  then show ?case by (simp add: map2_row_snd)
qed simp_all

lemma map_of_rev_distinct:
  "distinct (map fst items) \<Longrightarrow> map_of (rev items) = map_of items"
  by (rule iffD2 [OF map_of_inject_set]) (simp_all add: rev_map [symmetric])

lemma zeros_like_shape: "map length (zeros_like m) = map length m"
  by (simp add: zeros_like_def)

text \<open>A value that does not convert ends the loop with OverflowError, whatever the
  order of the items.\<close>

lemma remap_loop_overflow:
  "\<exists>(old_id, new_id) \<in> set items. \<not> fits_c_long dt new_id \<Longrightarrow>
   remap_loop dt part_map items out = Inl OverflowError"
proof (induction items arbitrary: out)
  case Nil
  then show ?case by simp
next
  case (Cons item items)
  obtain old_id new_id where item: "item = (old_id, new_id)" by (cases item)
  show ?case
  proof (cases "fits_c_long dt new_id")
    case False
    then show ?thesis by (simp add: item np_store_def)
  next
    case True
    with Cons.prems have "\<exists>(old_id, new_id) \<in> set items. \<not> fits_c_long dt new_id"
      by (auto simp: item)
    then have "remap_loop dt part_map items out' = Inl OverflowError" for out'
      by (rule Cons.IH)
    with True show ?thesis by (simp add: item np_store_def)
  qed
qed

text \<open>When every value converts, a pixel holds after the loop the stored value of
  the last item whose key is the pixel's input label, and its old content when
  there is none.\<close>

lemma remap_loop_pixelwise:
  "\<forall>(old_id, new_id) \<in> set items. fits_c_long dt new_id \<Longrightarrow>
   remap_loop dt part_map items (map2 (map2 g) part_map out) =
     Inr (map2 (map2 (\<lambda>p out. case map_of (rev (stored_items dt items)) p of
                                  None \<Rightarrow> g p out | Some stored \<Rightarrow> stored))
            part_map out)"
proof (induction items arbitrary: g)
  case Nil
  show ?case by (simp add: stored_items_def)
next
  case (Cons item items)
  obtain old_id new_id where item: "item = (old_id, new_id)" by (cases item)
  from Cons.prems have fits: "fits_c_long dt new_id"
    and rest: "\<forall>(old_id, new_id) \<in> set items. fits_c_long dt new_id"
    by (simp_all add: item)
  have "(\<lambda>p out. case map_of (rev (stored_items dt items)) p of
            None \<Rightarrow> (if p = old_id then np_wrap dt new_id else g p out) | Some v \<Rightarrow> v) =
        (\<lambda>p out. case map_of (rev (stored_items dt (item # items))) p of
            None \<Rightarrow> g p out | Some v \<Rightarrow> v)"
    by (auto simp: item stored_items_def fun_eq_iff map_add_def split: option.splits)
  then show ?case
    using fits
    by (simp add: item np_store_def assign_masked_def map2_grid_fuse Cons.IH [OF rest])
qed

lemma distinct_stored_items:
  "distinct (map fst (stored_items dt items)) = distinct (map fst items)"
proof -
  have "map fst (stored_items dt items) = map fst items"
    by (simp add: stored_items_def case_prod_unfold comp_def)
  then show ?thesis by simp
qed

lemma remap_parts_result:
  assumes "distinct (map fst remap_dict)"
  shows "remap_parts dt part_map remap_dict =
     (if \<forall>(old_id, new_id) \<in> set remap_dict. fits_c_long dt new_id
      then Inr (map (map (lookup_or_background (stored_items dt remap_dict))) part_map)
      else Inl OverflowError)"
proof (cases "\<forall>(old_id, new_id) \<in> set remap_dict. fits_c_long dt new_id")
  case False
  then have "\<exists>(old_id, new_id) \<in> set remap_dict. \<not> fits_c_long dt new_id" by auto
  then have "remap_parts dt part_map remap_dict = Inl OverflowError"
    unfolding remap_parts_def by (rule remap_loop_overflow)
  with False show ?thesis by simp
next
  case True
  let ?d = "stored_items dt remap_dict"
  have z: "zeros_like part_map = map2 (map2 (\<lambda>p out. out)) part_map (zeros_like part_map)"
    by (simp add: map2_grid_snd zeros_like_shape)
  have "remap_parts dt part_map remap_dict =
      remap_loop dt part_map remap_dict (map2 (map2 (\<lambda>p out. out)) part_map (zeros_like part_map))"
    unfolding remap_parts_def using z by simp
  also have "\<dots> = Inr (map2 (map2 (\<lambda>p out. case map_of (rev ?d) p of None \<Rightarrow> out | Some v \<Rightarrow> v))
      part_map (zeros_like part_map))"
    by (rule remap_loop_pixelwise [OF True])
  also have "map2 (map2 (\<lambda>p out. case map_of (rev ?d) p of None \<Rightarrow> out | Some v \<Rightarrow> v))
      part_map (zeros_like part_map) =
      map (map (\<lambda>p. case map_of (rev ?d) p of None \<Rightarrow> 0 | Some v \<Rightarrow> v)) part_map"
    unfolding zeros_like_def by (rule map2_grid_same)
  also have "map_of (rev ?d) = map_of ?d"
    using assms by (intro map_of_rev_distinct) (simp add: distinct_stored_items)
  finally have "remap_parts dt part_map remap_dict =
      Inr (map (map (\<lambda>p. case map_of ?d p of None \<Rightarrow> 0 | Some v \<Rightarrow> v)) part_map)" .
  with True show ?thesis by (simp add: lookup_or_background_def [abs_def])
qed

subsection \<open>Values in the range of the dtype\<close>

lemma in_range_fits:
  "dtype_min dt \<le> v \<Longrightarrow> v \<le> dtype_max dt \<Longrightarrow> fits_c_long dt v"
  by (cases dt) (simp_all add: dtype_min_def dtype_max_def fits_c_long_def)

lemma in_range_wrap:
  "dtype_min dt \<le> v \<Longrightarrow> v \<le> dtype_max dt \<Longrightarrow> np_wrap dt v = v"
  by (cases dt) (simp_all add: dtype_min_def dtype_max_def np_wrap_def)

lemma stored_items_in_range:
  "\<forall>(old_id, new_id) \<in> set items. dtype_min dt \<le> new_id \<and> new_id \<le> dtype_max dt \<Longrightarrow>
   stored_items dt items = items"
  unfolding stored_items_def
  by (induction items) (auto simp: in_range_wrap)

text \<open>
  Claim C1, as amended. For every label map of an integer dtype and every remap
  table whose values are all in the range of that dtype, \<open>remap_parts\<close> returns a map
  of the same shape (as many rows, each row as long); a pixel whose input label has
  an entry in the table holds the mapped value, a pixel whose input label has none
  holds background 0; the empty table gives the all-background map.
\<close>

theorem remap_parts_contract:
  assumes "distinct (map fst remap_dict)"
    and "\<forall>(old_id, new_id) \<in> set remap_dict. dtype_min dt \<le> new_id \<and> new_id \<le> dtype_max dt"
  shows "\<exists>new_part_map.
      remap_parts dt part_map remap_dict = Inr new_part_map
    \<and> map length new_part_map = map length part_map
    \<and> (\<forall>r < length part_map. \<forall>c < length (part_map ! r).
          (\<forall>new_id. map_of remap_dict (part_map ! r ! c) = Some new_id \<longrightarrow>
             new_part_map ! r ! c = new_id)
        \<and> (map_of remap_dict (part_map ! r ! c) = None \<longrightarrow> new_part_map ! r ! c = 0))
    \<and> remap_parts dt part_map [] = Inr (map (map (\<lambda>_. 0)) part_map)"
proof -
  let ?out = "map (map (lookup_or_background remap_dict)) part_map"
  have fits: "\<forall>(old_id, new_id) \<in> set remap_dict. fits_c_long dt new_id"
    using assms(2) by (auto intro: in_range_fits)
  have res: "remap_parts dt part_map remap_dict = Inr ?out"
    using fits by (simp add: remap_parts_result [OF assms(1)] stored_items_in_range [OF assms(2)])
  have shape: "map length ?out = map length part_map" by simp
  have mapped: "?out ! r ! c = new_id"
    if "r < length part_map" "c < length (part_map ! r)"
      and "map_of remap_dict (part_map ! r ! c) = Some new_id" for r c new_id
    using that by (simp add: lookup_or_background_def)
  have unmapped: "?out ! r ! c = 0"
    if "r < length part_map" "c < length (part_map ! r)"
      and "map_of remap_dict (part_map ! r ! c) = None" for r c
    using that by (simp add: lookup_or_background_def)
  have empty: "remap_parts dt part_map [] = Inr (map (map (\<lambda>_. 0)) part_map)"
    by (simp add: remap_parts_def zeros_like_def)
  from res shape mapped unmapped empty show ?thesis
    by (intro exI [of _ ?out]) blast
qed

theorem remap_parts_contract_witness:
  "distinct (map fst [(1 :: int, 5 :: int), (3, 7)])
   \<and> (\<exists>new_part_map. remap_parts UInt8 [[1, 2], [3, 1]] [(1, 5), (3, 7)] = Inr new_part_map
        \<and> map length new_part_map = [2, 2]
        \<and> new_part_map ! 1 ! 0 = 7
        \<and> new_part_map ! 0 ! 1 = 0)"
proof -
  have d: "distinct (map fst [(1 :: int, 5 :: int), (3, 7)])" by simp
  have r: "\<forall>(old_id, new_id) \<in> set [(1 :: int, 5 :: int), (3, 7)].
      dtype_min UInt8 \<le> new_id \<and> new_id \<le> dtype_max UInt8"
    by (simp add: dtype_min_def dtype_max_def)
  from remap_parts_contract [OF d r, of "[[1, 2], [3, 1]]"]
  obtain new_part_map
    where res: "remap_parts UInt8 [[1, 2], [3, 1]] [(1, 5), (3, 7)] = Inr new_part_map"
      and shape: "map length new_part_map = map length [[1, 2], [3, 1 :: int]]"
      and pix: "\<forall>r < length [[1, 2], [3, 1 :: int]]. \<forall>c < length ([[1, 2], [3, 1 :: int]] ! r).
          (\<forall>new_id. map_of [(1 :: int, 5 :: int), (3, 7)] ([[1, 2], [3, 1]] ! r ! c) = Some new_id \<longrightarrow>
             new_part_map ! r ! c = new_id)
        \<and> (map_of [(1 :: int, 5 :: int), (3, 7)] ([[1, 2], [3, 1]] ! r ! c) = None \<longrightarrow>
             new_part_map ! r ! c = 0)"
    by (elim exE conjE)
  from pix have
    "map_of [(1 :: int, 5 :: int), (3, 7)] ([[1, 2], [3, 1]] ! 1 ! 0) = Some 7 \<longrightarrow>
       new_part_map ! 1 ! 0 = 7"
    by (elim conjE allE [of _ 1] allE [of _ 0]) simp
  then have mapped: "new_part_map ! 1 ! 0 = 7" by simp
  from pix have
    "map_of [(1 :: int, 5 :: int), (3, 7)] ([[1, 2], [3, 1]] ! 0 ! 1) = None \<longrightarrow>
       new_part_map ! 0 ! 1 = 0"
    by (elim conjE allE [of _ 0] allE [of _ 1]) simp
  then have unmapped: "new_part_map ! 0 ! 1 = 0" by simp
  from shape have shape': "map length new_part_map = [2, 2]" by simp
  from d res shape' mapped unmapped show ?thesis
    by (intro conjI exI [of _ new_part_map])
qed

text \<open>
  The claim as stated, for every remap table, fails: a map of dtype uint8 has no
  room for the table value 300. The pixel with label 1 holds 44, which is 300
  modulo 256, and not the mapped value.
\<close>

theorem remap_parts_wraps_uint8:
  "remap_parts UInt8 [[1, 2]] [(1, 300)] = Inr [[44, 0]]
   \<and> map_of [(1 :: int, 300 :: int)] ([[1, 2]] ! 0 ! 0) = Some 300
   \<and> (44 :: int) \<noteq> 300"
  by (simp add: remap_parts_def zeros_like_def assign_masked_def np_store_def fits_c_long_def
      np_wrap_def dtype_min_def)

text \<open>
  Claim C8. The output of \<open>remap_parts\<close> does not depend on the order in which the
  entries of the table are enumerated: two listings of the same dict (the same set
  of items, keys pairwise different) give equal results, for a map of any dtype.
\<close>

theorem remap_parts_order_irrelevant:
  assumes "distinct (map fst items)" and "distinct (map fst items')"
    and "set items = set items'"
  shows "remap_parts dt part_map items = remap_parts dt part_map items'"
proof -
  have "distinct (map fst (stored_items dt items))"
    and "distinct (map fst (stored_items dt items'))"
    using assms(1,2) by (simp_all add: distinct_stored_items)
  moreover have "set (stored_items dt items) = set (stored_items dt items')"
    using assms(3) by (simp add: stored_items_def)
  ultimately have "map_of (stored_items dt items) = map_of (stored_items dt items')"
    by (simp add: map_of_inject_set)
  then have "lookup_or_background (stored_items dt items) =
      lookup_or_background (stored_items dt items')"
    by (simp add: fun_eq_iff lookup_or_background_def)
  then show ?thesis
    using assms(3) by (simp add: remap_parts_result [OF assms(1)] remap_parts_result [OF assms(2)])
qed

theorem remap_parts_order_irrelevant_witness:
  "distinct (map fst [(1 :: int, 5 :: int), (3, 7)]) \<and> distinct (map fst [(3 :: int, 7 :: int), (1, 5)])
   \<and> set [(1 :: int, 5 :: int), (3, 7)] = set [(3, 7), (1, 5)]
   \<and> remap_parts UInt8 [[1, 2], [3, 1]] [(1, 5), (3, 7)] =
      remap_parts UInt8 [[1, 2], [3, 1]] [(3, 7), (1, 5)]"
proof -
  have a: "distinct (map fst [(1 :: int, 5 :: int), (3, 7)])" by simp
  have b: "distinct (map fst [(3 :: int, 7 :: int), (1, 5)])" by simp
  have c: "set [(1 :: int, 5 :: int), (3, 7)] = set [(3, 7), (1, 5)]" by auto
  from a b c remap_parts_order_irrelevant [OF a b c, of UInt8 "[[1, 2], [3, 1]]"]
  show ?thesis by blast
qed

section \<open>Properties of compute_iou\<close>

lemma broadcast_row_same:
  "length xs = length ys \<Longrightarrow> broadcast_row f xs ys = Inr (map2 f xs ys)"
  by (simp add: broadcast_row_def)

lemma collect_rows_same:
  "map length a = map length b \<Longrightarrow>
   collect (map2 (broadcast_row f) a b) = Inr (map2 (map2 f) a b)"
proof (induction a b rule: list_induct2')
  case (4 r a s b)
  then show ?case by (simp add: broadcast_row_same)
qed simp_all

lemma broadcast2_same:
  assumes "same_shape a b"
  shows "broadcast2 f a b = Inr (map2 (map2 f) a b)"
proof -
  from assms have m: "map length a = map length b" by (simp add: same_shape_def)
  then have "length a = length b" by (rule map_eq_imp_length_eq)
  with m show ?thesis by (simp add: broadcast2_def collect_rows_same)
qed

lemma concat_map2:
  "map length a = map length b \<Longrightarrow>
   concat (map2 (map2 f) a b) = map2 f (concat a) (concat b)"
proof (induction a b rule: list_induct2')
  case (4 r a s b)
  then show ?case by (simp add: zip_append)
qed simp_all

lemma shape_eq_mask: "map length (eq_mask a v) = map length a"
  by (simp add: eq_mask_def comp_def)

lemma same_shape_eq_mask: "same_shape a b \<Longrightarrow> same_shape (eq_mask a v) (eq_mask b w)"
  by (simp add: same_shape_def shape_eq_mask)

lemma concat_eq_mask: "concat (eq_mask a v) = map (\<lambda>p. p = v) (concat a)"
  by (simp add: eq_mask_def map_concat)

lemma np_sum_masks:
  assumes "same_shape pred label"
  shows "np_sum (map2 (map2 f) (eq_mask label v) (eq_mask pred v)) =
         real (length (filter (\<lambda>(p, l). f (l = v) (p = v)) (pixel_pairs pred label)))"
proof -
  have m: "map length (eq_mask label v) = map length (eq_mask pred v)"
    using assms by (simp add: same_shape_def shape_eq_mask)
  have "filter id (map2 f (map (\<lambda>p. p = v) ls) (map (\<lambda>p. p = v) ps)) =
        map (\<lambda>(p, l). f (l = v) (p = v)) (filter (\<lambda>(p, l). f (l = v) (p = v)) (zip ps ls))"
    for ps ls :: "int list"
    by (induction ps ls rule: list_induct2') simp_all
  then show ?thesis
    by (simp add: np_sum_def concat_map2 [OF m] concat_eq_mask pixel_pairs_def)
qed

lemma iou_loop_same:
  assumes "same_shape pred label"
  shows "iou_loop pred label vals =
     Inr (map (\<lambda>v. real (intersection_count pred label v)) vals,
          map (\<lambda>v. real (union_count pred label v)) vals)"
proof (induction vals)
  case Nil
  show ?case by simp
next
  case (Cons v vals)
  have s: "same_shape (eq_mask label v) (eq_mask pred v)"
    using assms by (simp add: same_shape_def shape_eq_mask)
  show ?case
    by (simp add: Cons.IH logical_and_def logical_or_def broadcast2_same [OF s]
        np_sum_masks [OF assms] intersection_count_def union_count_def)
qed

lemma union_count_pos:
  assumes "same_shape pred label" and "v \<in> set (concat label)"
  shows "0 < union_count pred label v"
proof -
  have "length (concat pred) = length (concat label)"
    using assms(1) by (simp add: same_shape_def length_concat)
  then have "set (map snd (zip (concat pred) (concat label))) = set (concat label)"
    by simp
  with assms(2) obtain p where "(p, v) \<in> set (zip (concat pred) (concat label))"
    by (metis (no_types, lifting) imageE list.set_map prod.collapse snd_conv)
  then have "filter (\<lambda>(p, l). l = v \<or> p = v) (zip (concat pred) (concat label)) \<noteq> []"
    by (auto simp: filter_empty_conv)
  then show ?thesis by (simp add: union_count_def pixel_pairs_def)
qed

lemma set_np_unique: "set (np_unique a) = set (concat a)"
  by (simp add: np_unique_def)

lemma compute_iou_same:
  assumes "same_shape pred label"
  shows "compute_iou pred label =
     Inr (map (\<lambda>v. Fin (jaccard pred label v)) (np_unique label), np_unique label)"
proof -
  have "map2 true_divide (map (\<lambda>v. real (intersection_count pred label v)) vals)
          (map (\<lambda>v. real (union_count pred label v)) vals) =
        map (\<lambda>v. Fin (jaccard pred label v)) vals"
    if "set vals \<subseteq> set (concat label)" for vals
    using that
  proof (induction vals)
    case Nil
    show ?case by simp
  next
    case (Cons v vals)
    then have "0 < union_count pred label v"
      using union_count_pos [OF assms] by simp
    with Cons show ?case by (simp add: true_divide_def jaccard_def)
  qed
  then show ?thesis
    by (simp add: compute_iou_def Let_def iou_loop_same [OF assms] set_np_unique)
qed

lemma jaccard_self:
  assumes "v \<in> set (concat L)"
  shows "jaccard L L v = 1"
proof -
  have same: "same_shape L L" by (simp add: same_shape_def)
  have "filter (\<lambda>(p, l). l = v \<and> p = v) (zip xs xs) = filter (\<lambda>(p, l). l = v \<or> p = v) (zip xs xs)"
    for xs :: "int list"
    by (induction xs) auto
  then have "intersection_count L L v = union_count L L v"
    by (simp add: intersection_count_def union_count_def pixel_pairs_def)
  moreover have "0 < union_count L L v"
    using union_count_pos [OF same assms] .
  ultimately show ?thesis by (simp add: jaccard_def)
qed

text \<open>
  Claim C6. For every label map \<open>L\<close>, \<open>compute_iou L L\<close> returns the IoU value 1.0
  for every label value present in \<open>L\<close>: the returned labels are exactly the values
  that occur in \<open>L\<close>, and the IoU array holds 1.0 in every slot.
\<close>

theorem compute_iou_self:
  "compute_iou L L = Inr (replicate (length (np_unique L)) (Fin 1), np_unique L)
   \<and> set (np_unique L) = set (concat L)"
proof -
  have "map (\<lambda>v. Fin (jaccard L L v)) (np_unique L) = map (\<lambda>v. Fin 1) (np_unique L)"
    by (rule map_cong) (simp_all add: set_np_unique jaccard_self del: set_concat)
  then show ?thesis
    by (simp add: compute_iou_same same_shape_def set_np_unique map_replicate_const del: set_concat)
qed

text \<open>
  Claim C10. For maps of one shape, every label value \<open>compute_iou\<close> iterates over is
  one of the distinct values of the ground truth, so every slot of the Union array
  is strictly positive, the division is never \<open>0 / 0\<close>, and every returned IoU is a
  finite number, not NaN.
\<close>

theorem compute_iou_union_positive:
  assumes "same_shape pred label"
  shows "\<exists>Intersection_arr Union_arr.
      iou_loop pred label (np_unique label) = Inr (Intersection_arr, Union_arr)
    \<and> compute_iou pred label = Inr (map2 true_divide Intersection_arr Union_arr, np_unique label)
    \<and> length Intersection_arr = length (np_unique label)
    \<and> length Union_arr = length (np_unique label)
    \<and> distinct (np_unique label) \<and> set (np_unique label) = set (concat label)
    \<and> (\<forall>u \<in> set Union_arr. 0 < u)
    \<and> (\<forall>x \<in> set (map2 true_divide Intersection_arr Union_arr). \<exists>q. x = Fin q)
    \<and> NaN \<notin> set (map2 true_divide Intersection_arr Union_arr)"
proof -
  let ?I = "map (\<lambda>v. real (intersection_count pred label v)) (np_unique label)"
  let ?U = "map (\<lambda>v. real (union_count pred label v)) (np_unique label)"
  have loop: "iou_loop pred label (np_unique label) = Inr (?I, ?U)"
    by (rule iou_loop_same [OF assms])
  have res: "compute_iou pred label = Inr (map2 true_divide ?I ?U, np_unique label)"
    by (simp add: compute_iou_def Let_def loop)
  have pos: "\<forall>u \<in> set ?U. 0 < u"
    using union_count_pos [OF assms] by (auto simp: set_np_unique simp del: set_concat)
  have fin: "\<exists>q. x = Fin q" if "x \<in> set (map2 true_divide ?I ?U)" for x
  proof -
    from that obtain i u where "(i, u) \<in> set (zip ?I ?U)" and x: "x = true_divide i u"
      by auto
    then have "u \<in> set ?U" by (meson set_zip_rightD)
    with pos have "0 < u" by blast
    with x show ?thesis by (simp add: true_divide_def)
  qed
  then have nan: "NaN \<notin> set (map2 true_divide ?I ?U)" by blast
  have d: "distinct (np_unique label)" by (simp add: np_unique_def)
  from loop res pos fin nan d show ?thesis
    by (intro exI [of _ ?I] exI [of _ ?U]) (simp add: set_np_unique del: set_concat)
qed

theorem compute_iou_union_positive_witness:
  "same_shape [[1, 1], [1, 1 :: int]] [[0, 1], [2, 1 :: int]]
   \<and> compute_iou [[1, 1], [1, 1]] [[0, 1], [2, 1]] = Inr ([Fin 0, Fin (1 / 2), Fin 0], [0, 1, 2])
   \<and> NaN \<notin> set [Fin 0, Fin (1 / 2), Fin 0]"
proof -
  have s: "same_shape [[1, 1], [1, 1 :: int]] [[0, 1], [2, 1 :: int]]"
    by (simp add: same_shape_def)
  from compute_iou_union_positive [OF s]
  obtain ious where "compute_iou [[1, 1], [1, 1]] [[0, 1], [2, 1]] = Inr (ious, np_unique [[0, 1], [2, 1]])"
    and "NaN \<notin> set ious"
    by blast
  moreover have "compute_iou [[1, 1], [1, 1]] [[0, 1], [2, 1]] = Inr ([Fin 0, Fin (1 / 2), Fin 0], [0, 1, 2])"
    by (simp add: compute_iou_def np_unique_def eq_mask_def logical_and_def logical_or_def
        broadcast2_def broadcast_row_def np_sum_def true_divide_def)
  ultimately show ?thesis using s by simp
qed

section \<open>Properties of calculate_iou_df\<close>

lemma map_of_dict_update:
  "map_of (dict_update d other) = map_of d ++ map_of (rev other)"
proof (induction other arbitrary: d)
  case Nil
  show ?case by (simp add: dict_update_def)
next
  case (Cons kv other)
  obtain k v where kv: "kv = (k, v)" by (cases kv)
  have "dict_update d (kv # other) = dict_update (AList.update k v d) other"
    by (simp add: dict_update_def kv)
  then show ?case
    by (auto simp: Cons.IH kv update_conv' fun_eq_iff map_add_def split: option.splits)
qed

lemma distinct_dict_update:
  "distinct (map fst d) \<Longrightarrow> distinct (map fst (dict_update d other))"
proof (induction other arbitrary: d)
  case Nil
  then show ?case by (simp add: dict_update_def)
next
  case (Cons kv other)
  obtain k v where kv: "kv = (k, v)" by (cases kv)
  have "dict_update d (kv # other) = dict_update (AList.update k v d) other"
    by (simp add: dict_update_def kv)
  with Cons show ?case by (simp add: distinct_update)
qed

lemma map_of_dict_of: "map_of (dict_of items) = map_of (rev items)"
  by (simp add: dict_of_def map_of_dict_update)

lemma distinct_dict_of: "distinct (map fst (dict_of items))"
  by (simp add: dict_of_def distinct_dict_update)

text \<open>Updating a dict with a dict: the second wins where both have the key.\<close>

lemma map_of_update_with_dict:
  "map_of (dict_update d (dict_of items)) = map_of d ++ map_of (rev items)"
  by (simp add: map_of_dict_update map_of_rev_distinct distinct_dict_of map_of_dict_of)

lemma boolean_index_unique:
  "distinct ls \<Longrightarrow> v \<in> set ls \<Longrightarrow>
   boolean_index (map f ls) (map (\<lambda>l. v = l) ls) = [f v]"
proof (induction ls)
  case Nil
  then show ?case by simp
next
  case (Cons l ls)
  have none: "boolean_index (map f ls) (map (\<lambda>l. v = l) ls) = []" if "v \<notin> set ls"
    using that by (induction ls) (auto simp: boolean_index_def)
  show ?case
  proof (cases "v = l")
    case True
    with Cons.prems none show ?thesis by (simp add: boolean_index_def)
  next
    case False
    with Cons show ?thesis by (simp add: boolean_index_def)
  qed
qed

lemma present_items_values:
  assumes "distinct iou_labels"
  shows "present_items (map f iou_labels) iou_labels items =
     Inr (map (\<lambda>(pidx, p). (p, f (int pidx)))
            (filter (\<lambda>(pidx, p). int pidx \<in> set iou_labels) items))"
proof (induction items)
  case Nil
  show ?case by simp
next
  case (Cons item items)
  obtain pidx p where item: "item = (pidx, p)" by (cases item)
  show ?case
    by (simp add: item Cons.IH boolean_index_unique [OF assms] float_squeeze_def)
qed

lemma map_of_constant_dict:
  "map_of (rev (map (\<lambda>p. (p, c)) names)) k = (if k \<in> set names then Some c else None)"
  by (induction names) (auto simp: map_add_def split: option.splits)

lemma keys_present_of:
  "map fst (present_of f ls names) = map snd (filter (\<lambda>(pidx, p). int pidx \<in> set ls) (enumerate 0 names))"
  by (simp add: present_of_def case_prod_unfold comp_def)

lemma distinct_present_of:
  assumes "distinct names"
  shows "distinct (map fst (present_of f ls names))"
proof -
  have "distinct (map snd (enumerate 0 names))" using assms by simp
  then show ?thesis
    unfolding keys_present_of by (rule distinct_map_filter)
qed

lemma map_of_present_of:
  assumes "distinct names" and "i < length names"
  shows "map_of (present_of f ls names) (names ! i) =
         (if int i \<in> set ls then Some (f (int i)) else None)"
proof (cases "int i \<in> set ls")
  case True
  have "(i, names ! i) \<in> set (enumerate 0 names)"
    using assms(2) by (simp add: in_set_enumerate_eq)
  with True have "(names ! i, f (int i)) \<in> set (present_of f ls names)"
    by (force simp: present_of_def)
  with True distinct_present_of [OF assms(1)] show ?thesis
    by simp
next
  case False
  have "names ! i \<notin> fst ` set (present_of f ls names)"
  proof
    assume "names ! i \<in> fst ` set (present_of f ls names)"
    then obtain j where "j < length names" and "names ! j = names ! i" and "int j \<in> set ls"
      by (auto simp: present_of_def in_set_enumerate_eq)
    with assms have "j = i" by (simp add: nth_eq_iff_index_eq)
    with \<open>int j \<in> set ls\<close> False show False by simp
  qed
  with False show ?thesis by (simp add: map_of_eq_None_iff)
qed

lemma fst_set_present_of: "fst ` set (present_of f ls names) \<subseteq> set names"
  by (auto simp: present_of_def in_set_enumerate_eq)

lemma iou_row_same:
  assumes "same_shape P G"
  shows "iou_row P G names b = Inr (expected_row P G names b)"
proof -
  have "distinct (np_unique G)" by (simp add: np_unique_def)
  then show ?thesis
    by (simp add: iou_row_def compute_iou_same [OF assms] present_items_values
        expected_row_def present_of_def)
qed

lemma map_of_expected_row:
  "map_of (expected_row P G names b) =
     (map_of (rev (map (\<lambda>p. (p, sentinel)) names))
        ++ map_of (rev (present_of (\<lambda>v. Fin (jaccard P G v)) (np_unique G) names)))
     (''batch_idx'' \<mapsto> Fin (real b))"
  by (simp add: expected_row_def map_of_dict_update map_of_rev_distinct distinct_dict_of
      map_of_dict_of)

lemma expected_row_batch_idx:
  "map_of (expected_row P G names b) ''batch_idx'' = Some (Fin (real b))"
  by (simp add: map_of_expected_row)

lemma expected_row_label:
  assumes "distinct names" and "''batch_idx'' \<notin> set names" and "i < length names"
  shows "map_of (expected_row P G names b) (names ! i) =
         Some (if int i \<in> set (concat G) then Fin (jaccard P G (int i)) else sentinel)"
proof -
  from assms(2,3) have ne: "names ! i \<noteq> ''batch_idx''" by (metis nth_mem)
  from assms(3) have mem: "names ! i \<in> set names" by simp
  show ?thesis
    using ne mem
    by (simp add: map_of_expected_row map_add_def map_of_constant_dict
        map_of_rev_distinct [OF distinct_present_of [OF assms(1)]]
        map_of_present_of [OF assms(1,3)] set_np_unique del: set_concat)
qed

lemma expected_row_keys:
  "fst ` set (expected_row P G names b) \<subseteq> set (''batch_idx'' # names)"
proof -
  have "fst ` set (expected_row P G names b) = dom (map_of (expected_row P G names b))"
    by (simp add: dom_map_of_conv_image_fst)
  also have "\<dots> \<subseteq> set (''batch_idx'' # names)"
    using fst_set_present_of [of "\<lambda>v. Fin (jaccard P G v)" "np_unique G" names]
    by (auto simp: map_of_expected_row map_of_constant_dict dom_map_of_conv_image_fst
        split: if_splits)
  finally show ?thesis .
qed

lemma iou_df_loop_rows:
  assumes "\<forall>i \<in> set idxs. i < length target \<and> same_shape (predicted ! i) (target ! i)"
    and "set (''batch_idx'' # names) \<subseteq> set (df_columns df)"
  shows "iou_df_loop predicted target names idxs df =
     Inr \<lparr>df_columns = df_columns df,
          df_rows = df_rows df @ map (\<lambda>i. expected_row (predicted ! i) (target ! i) names i) idxs\<rparr>"
  using assms
proof (induction idxs arbitrary: df)
  case Nil
  show ?case by simp
next
  case (Cons i idxs)
  let ?r = "expected_row (predicted ! i) (target ! i) names i"
  have keys: "filter (\<lambda>k. k \<notin> set (df_columns df)) (map fst ?r) = []"
    using expected_row_keys [of "predicted ! i" "target ! i" names i] Cons.prems(2)
    by (auto simp: filter_empty_conv)
  have app: "df_append df ?r = \<lparr>df_columns = df_columns df, df_rows = df_rows df @ [?r]\<rparr>"
    by (simp add: df_append_def keys)
  from Cons.prems have i: "i < length target" "same_shape (predicted ! i) (target ! i)"
    by simp_all
  have "iou_df_loop predicted target names (i # idxs) df =
        iou_df_loop predicted target names idxs (df_append df ?r)"
    using i by (simp add: iou_row_same)
  also have "\<dots> = Inr \<lparr>df_columns = df_columns df,
       df_rows = df_rows df @ map (\<lambda>i. expected_row (predicted ! i) (target ! i) names i) (i # idxs)\<rparr>"
    using Cons.prems by (subst Cons.IH) (simp_all add: app)
  finally show ?case .
qed

lemma calculate_iou_df_rows:
  assumes "length target = length predicted"
    and "\<forall>i < length predicted. same_shape (predicted ! i) (target ! i)"
  shows "calculate_iou_df predicted target names =
     Inr \<lparr>df_columns = ''batch_idx'' # names,
          df_rows = map (\<lambda>i. expected_row (predicted ! i) (target ! i) names i)
                      [0 ..< length predicted]\<rparr>"
  unfolding calculate_iou_df_def
  using assms by (subst iou_df_loop_rows) (simp_all add: df_empty_def)

text \<open>
  Claim C2, as amended. For every stack of N predicted label maps, every stack of N
  ground-truth label maps of the same shapes, and every ordered list of pairwise
  different label names none of which is \<open>batch_idx\<close>, \<open>calculate_iou_df\<close> returns a
  frame with the columns \<open>batch_idx\<close> and the label names and exactly one row per
  sample, in sample order; the row of sample \<open>i\<close> holds \<open>i\<close> in the column \<open>batch_idx\<close>,
  and for the label name at position \<open>pidx\<close> it holds the Jaccard index of the label
  value \<open>pidx\<close> when that value occurs in the sample's ground truth, and the sentinel
  \<open>-1.0\<close> otherwise.
\<close>

theorem calculate_iou_df_contract:
  assumes "length target = length predicted"
    and "\<forall>i < length predicted. same_shape (predicted ! i) (target ! i)"
    and "distinct label_names" and "''batch_idx'' \<notin> set label_names"
  shows "\<exists>df. calculate_iou_df predicted target label_names = Inr df
     \<and> df_columns df = ''batch_idx'' # label_names
     \<and> length (df_rows df) = length predicted
     \<and> (\<forall>i < length predicted.
          df_cell df i ''batch_idx'' = Fin (real i)
        \<and> (\<forall>pidx < length label_names.
             df_cell df i (label_names ! pidx) =
               (if int pidx \<in> set (np_unique (target ! i))
                then Fin (jaccard (predicted ! i) (target ! i) (int pidx))
                else Fin (- 1))))"
proof -
  let ?row = "\<lambda>i. expected_row (predicted ! i) (target ! i) label_names i"
  let ?df = "\<lparr>df_columns = ''batch_idx'' # label_names,
              df_rows = map ?row [0 ..< length predicted]\<rparr>"
  have res: "calculate_iou_df predicted target label_names = Inr ?df"
    by (rule calculate_iou_df_rows [OF assms(1,2)])
  have idx: "df_cell ?df i ''batch_idx'' = Fin (real i)" if "i < length predicted" for i
    using that by (simp add: df_cell_def expected_row_batch_idx)
  have lab: "df_cell ?df i (label_names ! pidx) =
       (if int pidx \<in> set (np_unique (target ! i))
        then Fin (jaccard (predicted ! i) (target ! i) (int pidx)) else Fin (- 1))"
    if "i < length predicted" and "pidx < length label_names" for i pidx
    using that
    by (simp add: df_cell_def expected_row_label [OF assms(3,4)] set_np_unique sentinel_def
        del: set_concat)
  from res idx lab show ?thesis
    by (intro exI [of _ ?df]) simp
qed

theorem calculate_iou_df_contract_witness:
  "length [[[0, 1], [2, 1 :: int]]] = length [[[1, 1], [1, 1 :: int]]]
   \<and> same_shape [[1, 1], [1, 1 :: int]] [[0, 1], [2, 1 :: int]]
   \<and> distinct [''zeros'', ''ones'', ''twos'', ''threes'']
   \<and> ''batch_idx'' \<notin> set [''zeros'', ''ones'', ''twos'', ''threes'']
   \<and> (\<exists>df. calculate_iou_df [[[1, 1], [1, 1]]] [[[0, 1], [2, 1]]]
               [''zeros'', ''ones'', ''twos'', ''threes''] = Inr df
          \<and> length (df_rows df) = 1
          \<and> df_cell df 0 ''batch_idx'' = Fin 0
          \<and> df_cell df 0 ''ones'' = Fin (1 / 2)
          \<and> df_cell df 0 ''threes'' = Fin (- 1))"
proof -
  let ?P = "[[[1, 1], [1, 1 :: int]]]" and ?T = "[[[0, 1], [2, 1 :: int]]]"
  let ?names = "[''zeros'', ''ones'', ''twos'', ''threes'']"
  have h1: "length ?T = length ?P" by simp
  have s: "same_shape [[1, 1], [1, 1 :: int]] [[0, 1], [2, 1 :: int]]"
    by (simp add: same_shape_def)
  then have h2: "\<forall>i < length ?P. same_shape (?P ! i) (?T ! i)" by simp
  have h3: "distinct ?names" by simp
  have h4: "''batch_idx'' \<notin> set ?names" by simp
  from calculate_iou_df_contract [OF h1 h2 h3 h4]
  obtain df where df: "calculate_iou_df ?P ?T ?names = Inr df"
    and len: "length (df_rows df) = length ?P"
    and cells: "\<forall>i < length ?P. df_cell df i ''batch_idx'' = Fin (real i)
        \<and> (\<forall>pidx < length ?names. df_cell df i (?names ! pidx) =
              (if int pidx \<in> set (np_unique (?T ! i))
               then Fin (jaccard (?P ! i) (?T ! i) (int pidx)) else Fin (- 1)))"
    by blast
  from cells have c0: "df_cell df 0 ''batch_idx'' = Fin 0"
    and lab: "\<forall>pidx < length ?names. df_cell df 0 (?names ! pidx) =
              (if int pidx \<in> set (np_unique (?T ! 0))
               then Fin (jaccard (?P ! 0) (?T ! 0) (int pidx)) else Fin (- 1))"
    by simp_all
  have u: "np_unique [[0, 1], [2, 1]] = [0, 1, 2]" by (simp add: np_unique_def)
  have j: "jaccard [[1, 1], [1, 1]] [[0, 1], [2, 1]] 1 = 1 / 2"
    by (simp add: jaccard_def intersection_count_def union_count_def pixel_pairs_def)
  from lab have "df_cell df 0 (?names ! 1) =
      (if int 1 \<in> set (np_unique (?T ! 0))
       then Fin (jaccard (?P ! 0) (?T ! 0) (int 1)) else Fin (- 1))"
    by (elim allE [of _ 1]) simp
  then have c1: "df_cell df 0 ''ones'' = Fin (1 / 2)" by (simp add: u j)
  from lab have "df_cell df 0 (?names ! 3) =
      (if int 3 \<in> set (np_unique (?T ! 0))
       then Fin (jaccard (?P ! 0) (?T ! 0) (int 3)) else Fin (- 1))"
    by (elim allE [of _ 3]) simp
  then have c3: "df_cell df 0 ''threes'' = Fin (- 1)" by (simp add: u)
  from h1 s h3 h4 df len c0 c1 c3 show ?thesis by auto
qed

text \<open>
  The claim as stated, for every list of label names, fails: the row is a dict keyed
  by name. With the names \<open>a, a\<close> and a ground truth that holds label 0 only, the
  name at position 1 reads 1.0 where the claim promises the sentinel; with the label
  name \<open>batch_idx\<close> the IoU 1.0 of label 0 is overwritten by the sample index.
\<close>

theorem calculate_iou_df_duplicate_names:
  "calculate_iou_df [[[0]]] [[[0]]] [''a'', ''a''] =
     Inr \<lparr>df_columns = [''batch_idx'', ''a'', ''a''],
          df_rows = [[(''a'', Fin 1), (''batch_idx'', Fin 0)]]\<rparr>
   \<and> int 1 \<notin> set (np_unique ([[[0]]] ! 0))
   \<and> df_cell \<lparr>df_columns = [''batch_idx'', ''a'', ''a''],
               df_rows = [[(''a'', Fin 1), (''batch_idx'', Fin 0)]]\<rparr> 0 ([''a'', ''a''] ! 1) = Fin 1
   \<and> Fin 1 \<noteq> Fin (- 1)
   \<and> calculate_iou_df [[[0]]] [[[0]]] [''batch_idx''] =
     Inr \<lparr>df_columns = [''batch_idx'', ''batch_idx''],
          df_rows = [[(''batch_idx'', Fin 0)]]\<rparr>
   \<and> int 0 \<in> set (np_unique ([[[0]]] ! 0))
   \<and> jaccard [[0]] [[0]] (int 0) = 1
   \<and> df_cell \<lparr>df_columns = [''batch_idx'', ''batch_idx''],
               df_rows = [[(''batch_idx'', Fin 0)]]\<rparr> 0 ([''batch_idx''] ! 0) = Fin 0
   \<and> Fin 0 \<noteq> Fin 1"
proof -
  have a: "calculate_iou_df [[[0]]] [[[0]]] [''a'', ''a''] =
     Inr \<lparr>df_columns = [''batch_idx'', ''a'', ''a''],
          df_rows = [[(''a'', Fin 1), (''batch_idx'', Fin 0)]]\<rparr>"
    by code_simp
  have b: "calculate_iou_df [[[0]]] [[[0]]] [''batch_idx''] =
     Inr \<lparr>df_columns = [''batch_idx'', ''batch_idx''],
          df_rows = [[(''batch_idx'', Fin 0)]]\<rparr>"
    by code_simp
  have c: "jaccard [[0]] [[0]] (int 0) = 1"
    by (simp add: jaccard_def intersection_count_def union_count_def pixel_pairs_def)
  from a b c show ?thesis
    by (simp add: np_unique_def df_cell_def)
qed

section \<open>Properties of calculate_overall_iou_from_df\<close>

lemma foldl_fadd_Fin: "foldl fadd (Fin a) (map Fin xs) = Fin (a + sum_list xs)"
  by (induction xs arbitrary: a) (simp_all add: add.assoc)

lemma nanmean_Fin: "xs \<noteq> [] \<Longrightarrow> nanmean (map Fin xs) = Fin (mean xs)"
  by (simp add: nanmean_def mean_def foldl_fadd_Fin)

lemma nanmean_Fin_list:
  "nanmean (map Fin xs) = (if xs = [] then NaN else Fin (mean xs))"
  by (simp add: nanmean_def mean_def foldl_fadd_Fin)

lemma nanmean_no_values: "filter (\<lambda>x. x \<noteq> NaN) xs = [] \<Longrightarrow> nanmean xs = NaN"
  by (simp add: nanmean_def)

lemma nanmean_skips_NaN: "nanmean (filter (\<lambda>x. x \<noteq> NaN) xs) = nanmean xs"
  by (simp add: nanmean_def)

text \<open>A list of means of which some are NaN: the mean of the others.\<close>

lemma nanmean_partial:
  "nanmean (map (\<lambda>c. if P c then Fin (g c) else NaN) cs) =
     (let ms = map g (filter P cs) in if ms = [] then NaN else Fin (mean ms))"
proof -
  have "filter (\<lambda>x. x \<noteq> NaN) (map (\<lambda>c. if P c then Fin (g c) else NaN) cs) =
        map Fin (map g (filter P cs))"
    by (induction cs) simp_all
  then have "nanmean (map (\<lambda>c. if P c then Fin (g c) else NaN) cs) =
        nanmean (map Fin (map g (filter P cs)))"
    by (metis nanmean_skips_NaN)
  then show ?thesis
    by (simp only: nanmean_Fin_list Let_def)
qed

lemma column_mean_finite:
  assumes "\<forall>x \<in> set xs. \<exists>r. x = Fin r"
  shows "nanmean (map where_not_sentinel xs) =
     (let vals = filter (\<lambda>x. x \<noteq> - 1) (map fin_value xs)
      in if vals = [] then NaN else Fin (mean vals))"
proof -
  from assms have "filter (\<lambda>x. x \<noteq> NaN) (map where_not_sentinel xs) =
      map Fin (filter (\<lambda>x. x \<noteq> - 1) (map fin_value xs))"
    by (induction xs) (auto simp: where_not_sentinel_def sentinel_def)
  then have "nanmean (map where_not_sentinel xs) =
      nanmean (map Fin (filter (\<lambda>x. x \<noteq> - 1) (map fin_value xs)))"
    by (metis nanmean_skips_NaN)
  then show ?thesis
    by (simp only: nanmean_Fin_list Let_def)
qed

lemma map_of_column_means:
  "c \<in> set cs \<Longrightarrow> map_of (map (\<lambda>c. (c, m c)) cs) c = Some (m c)"
  by (induction cs) auto

lemma column_mean_of_frame:
  assumes "\<forall>c \<in> set (df_columns df). \<forall>x \<in> set (df_column df c). \<exists>r. x = Fin r"
    and "c \<in> set (df_columns df)"
  shows "nanmean (map where_not_sentinel (df_column df c)) =
     (if non_sentinel df c \<noteq> [] then Fin (mean (non_sentinel df c)) else NaN)"
  using assms by (simp add: column_mean_finite non_sentinel_def Let_def)

lemma overall_cell:
  "df_cell (calculate_overall_iou_from_df df excl) 0 ''overall'' =
     nanmean (map (\<lambda>c. nanmean (map where_not_sentinel (df_column df c)))
                (filter (\<lambda>x. x \<notin> set excl) (df_columns df)))"
proof -
  let ?m = "\<lambda>c. nanmean (map where_not_sentinel (df_column df c))"
  let ?df_mean = "map (\<lambda>c. (c, ?m c)) (df_columns df)"
  let ?sel = "filter (\<lambda>x. x \<notin> set excl) (df_columns df)"
  have eq: "map (\<lambda>c. case map_of ?df_mean c of None \<Rightarrow> NaN | Some v \<Rightarrow> v) ?sel = map ?m ?sel"
    by (rule map_cong) (simp_all add: map_of_column_means)
  have "df_cell (calculate_overall_iou_from_df df excl) 0 ''overall'' =
      nanmean (map (\<lambda>c. case map_of ?df_mean c of None \<Rightarrow> NaN | Some v \<Rightarrow> v) ?sel)"
    by (simp add: calculate_overall_iou_from_df_def df_cell_def Let_def update_conv')
  then show ?thesis by (simp only: eq)
qed

lemma label_cell:
  assumes "c \<in> set (df_columns df)" and "c \<noteq> ''overall''"
  shows "df_cell (calculate_overall_iou_from_df df excl) 0 c =
     nanmean (map where_not_sentinel (df_column df c))"
  using assms
  by (simp add: calculate_overall_iou_from_df_def df_cell_def Let_def update_conv'
      map_of_column_means)

text \<open>
  Claim C3. For every IoU table, that is a frame whose cells are finite numbers, and
  every list of excluded column names, the returned frame has one row; the mean of a
  column is taken over the values that are not the sentinel \<open>-1\<close> only (it is NaN when
  there is none: \<open>-1\<close> counts as missing, not as zero); \<open>overall\<close> is the one mean of
  the means of the columns that are not excluded and have a mean; and when some
  column that is not excluded has an entry other than the sentinel, \<open>overall\<close> is a
  finite number.
\<close>

theorem calculate_overall_iou_from_df_contract:
  assumes "\<forall>c \<in> set (df_columns df). \<forall>x \<in> set (df_column df c). \<exists>r. x = Fin r"
  shows "length (df_rows (calculate_overall_iou_from_df df exclude_columns)) = 1
   \<and> (\<forall>c \<in> set (df_columns df). c \<noteq> ''overall'' \<longrightarrow>
        df_cell (calculate_overall_iou_from_df df exclude_columns) 0 c =
          (if non_sentinel df c \<noteq> [] then Fin (mean (non_sentinel df c)) else NaN))
   \<and> df_cell (calculate_overall_iou_from_df df exclude_columns) 0 ''overall'' =
        (let means = map (\<lambda>c. mean (non_sentinel df c))
                       (filter (\<lambda>c. c \<notin> set exclude_columns \<and> non_sentinel df c \<noteq> [])
                          (df_columns df))
         in if means = [] then NaN else Fin (mean means))
   \<and> ((\<exists>c \<in> set (df_columns df). c \<notin> set exclude_columns \<and> non_sentinel df c \<noteq> []) \<longrightarrow>
        (\<exists>x. df_cell (calculate_overall_iou_from_df df exclude_columns) 0 ''overall'' = Fin x))"
proof -
  let ?res = "calculate_overall_iou_from_df df exclude_columns"
  let ?sel = "filter (\<lambda>x. x \<notin> set exclude_columns) (df_columns df)"
  let ?P = "\<lambda>c. non_sentinel df c \<noteq> []"
  let ?g = "\<lambda>c. mean (non_sentinel df c)"
  let ?means = "map ?g (filter (\<lambda>c. c \<notin> set exclude_columns \<and> ?P c) (df_columns df))"
  have one: "length (df_rows ?res) = 1"
    by (simp add: calculate_overall_iou_from_df_def Let_def)
  have cols: "df_cell ?res 0 c = (if ?P c then Fin (?g c) else NaN)"
    if "c \<in> set (df_columns df)" and "c \<noteq> ''overall''" for c
    by (simp only: label_cell [OF that] column_mean_of_frame [OF assms that(1)])
  have "map (\<lambda>c. nanmean (map where_not_sentinel (df_column df c))) ?sel =
        map (\<lambda>c. if ?P c then Fin (?g c) else NaN) ?sel"
    by (rule map_cong) (simp_all add: column_mean_of_frame [OF assms])
  then have "df_cell ?res 0 ''overall'' = nanmean (map (\<lambda>c. if ?P c then Fin (?g c) else NaN) ?sel)"
    by (simp only: overall_cell)
  also have "\<dots> = (let ms = map ?g (filter ?P ?sel) in if ms = [] then NaN else Fin (mean ms))"
    by (rule nanmean_partial)
  also have "filter ?P ?sel = filter (\<lambda>c. c \<notin> set exclude_columns \<and> ?P c) (df_columns df)"
    by simp
  finally have overall: "df_cell ?res 0 ''overall'' =
      (let means = ?means in if means = [] then NaN else Fin (mean means))" .
  have defined: "\<exists>x. df_cell ?res 0 ''overall'' = Fin x"
    if "\<exists>c \<in> set (df_columns df). c \<notin> set exclude_columns \<and> ?P c"
  proof -
    from that have "?means \<noteq> []" by (auto simp: filter_empty_conv)
    with overall show ?thesis by (simp add: Let_def)
  qed
  from one cols overall defined show ?thesis by blast
qed

theorem calculate_overall_iou_from_df_contract_witness:
  "df_cell (calculate_overall_iou_from_df
      \<lparr>df_columns = [''batch_idx'', ''ones'', ''threes''],
       df_rows = [[(''ones'', Fin (1 / 2)), (''threes'', Fin (- 1)), (''batch_idx'', Fin 0)],
                  [(''ones'', Fin 1), (''threes'', Fin (- 1)), (''batch_idx'', Fin 1)]]\<rparr>
      [''batch_idx'']) 0 ''ones'' = Fin (3 / 4)
   \<and> df_cell (calculate_overall_iou_from_df
      \<lparr>df_columns = [''batch_idx'', ''ones'', ''threes''],
       df_rows = [[(''ones'', Fin (1 / 2)), (''threes'', Fin (- 1)), (''batch_idx'', Fin 0)],
                  [(''ones'', Fin 1), (''threes'', Fin (- 1)), (''batch_idx'', Fin 1)]]\<rparr>
      [''batch_idx'']) 0 ''threes'' = NaN
   \<and> df_cell (calculate_overall_iou_from_df
      \<lparr>df_columns = [''batch_idx'', ''ones'', ''threes''],
       df_rows = [[(''ones'', Fin (1 / 2)), (''threes'', Fin (- 1)), (''batch_idx'', Fin 0)],
                  [(''ones'', Fin 1), (''threes'', Fin (- 1)), (''batch_idx'', Fin 1)]]\<rparr>
      [''batch_idx'']) 0 ''overall'' = Fin (3 / 4)"
proof -
  let ?df = "\<lparr>df_columns = [''batch_idx'', ''ones'', ''threes''],
       df_rows = [[(''ones'', Fin (1 / 2)), (''threes'', Fin (- 1)), (''batch_idx'', Fin 0)],
                  [(''ones'', Fin 1), (''threes'', Fin (- 1)), (''batch_idx'', Fin 1)]]\<rparr>"
  have fin: "\<forall>c \<in> set (df_columns ?df). \<forall>x \<in> set (df_column ?df c). \<exists>r. x = Fin r"
    by (auto simp: df_column_def simp del: npfloat.inject)
  have b: "non_sentinel ?df ''batch_idx'' = [0, 1]"
    and o: "non_sentinel ?df ''ones'' = [1 / 2, 1]"
    and t: "non_sentinel ?df ''threes'' = []"
    by (simp_all add: non_sentinel_def df_column_def)
  note spec = calculate_overall_iou_from_df_contract [OF fin, of "[''batch_idx'']"]
  from spec have "''ones'' \<noteq> ''overall'' \<longrightarrow>
      df_cell (calculate_overall_iou_from_df ?df [''batch_idx'']) 0 ''ones'' =
        (if non_sentinel ?df ''ones'' \<noteq> [] then Fin (mean (non_sentinel ?df ''ones'')) else NaN)"
    by (elim conjE ballE [of _ _ "''ones''"]) simp_all
  then have ones: "df_cell (calculate_overall_iou_from_df ?df [''batch_idx'']) 0 ''ones'' = Fin (3 / 4)"
    by (simp add: o mean_def)
  from spec have "''threes'' \<noteq> ''overall'' \<longrightarrow>
      df_cell (calculate_overall_iou_from_df ?df [''batch_idx'']) 0 ''threes'' =
        (if non_sentinel ?df ''threes'' \<noteq> [] then Fin (mean (non_sentinel ?df ''threes'')) else NaN)"
    by (elim conjE ballE [of _ _ "''threes''"]) simp_all
  then have threes: "df_cell (calculate_overall_iou_from_df ?df [''batch_idx'']) 0 ''threes'' = NaN"
    by (simp add: t)
  from spec have "df_cell (calculate_overall_iou_from_df ?df [''batch_idx'']) 0 ''overall'' =
        (let means = map (\<lambda>c. mean (non_sentinel ?df c))
                       (filter (\<lambda>c. c \<notin> set [''batch_idx''] \<and> non_sentinel ?df c \<noteq> [])
                          (df_columns ?df))
         in if means = [] then NaN else Fin (mean means))"
    by (elim conjE)
  then have overall: "df_cell (calculate_overall_iou_from_df ?df [''batch_idx'']) 0 ''overall'' = Fin (3 / 4)"
    by (simp add: o t b mean_def)
  from ones threes overall show ?thesis by (intro conjI)
qed

lemma where_not_sentinel_nan_to_sentinel:
  "where_not_sentinel (nan_to_sentinel x) = where_not_sentinel x"
  by (simp add: where_not_sentinel_def nan_to_sentinel_def)

lemma masked_column_map_cells:
  "map where_not_sentinel (df_column (df_map_cells nan_to_sentinel df) c) =
   map where_not_sentinel (df_column df c)"
proof -
  have "map_of (map (\<lambda>(k, v). (k, f v)) r) c = map_option f (map_of r c)"
    for f :: "npfloat \<Rightarrow> npfloat" and r :: row
    by (induction r) auto
  then have "where_not_sentinel (case map_of (map (\<lambda>(k, v). (k, nan_to_sentinel v)) r) c of
                 None \<Rightarrow> NaN | Some v \<Rightarrow> v) =
             where_not_sentinel (case map_of r c of None \<Rightarrow> NaN | Some v \<Rightarrow> v)" for r :: row
    by (cases "map_of r c") (simp_all add: where_not_sentinel_nan_to_sentinel)
  then show ?thesis
    by (simp add: df_column_def df_map_cells_def)
qed

subsection \<open>compute_iou where a union is empty\<close>

lemma count_true_mono:
  "(\<And>z. f z \<Longrightarrow> g z) \<Longrightarrow>
   length (filter id (map f zs)) \<le> length (filter id (map g zs))"
  by (induction zs) auto

lemma broadcast_row_mono:
  assumes "\<forall>p q. f p q \<longrightarrow> g p q"
    and "broadcast_row f xs ys = Inr r" and "broadcast_row g xs ys = Inr s"
  shows "length (filter id r) \<le> length (filter id s)"
proof -
  consider (same) "length xs = length ys"
    | (left) "length xs \<noteq> length ys" "length xs = 1"
    | (right) "length xs \<noteq> length ys" "length xs \<noteq> 1" "length ys = 1"
    | (none) "length xs \<noteq> length ys" "length xs \<noteq> 1" "length ys \<noteq> 1"
    by blast
  then show ?thesis
  proof cases
    case same
    with assms(2,3) have "r = map (\<lambda>(x, y). f x y) (zip xs ys)"
      and "s = map (\<lambda>(x, y). g x y) (zip xs ys)"
      by (simp_all add: broadcast_row_def)
    then show ?thesis
      using assms(1) by (simp only:) (rule count_true_mono, auto)
  next
    case left
    with assms(2,3) have "r = map (f (hd xs)) ys" and "s = map (g (hd xs)) ys"
      by (simp_all add: broadcast_row_def)
    then show ?thesis
      using assms(1) by (simp only:) (rule count_true_mono, auto)
  next
    case right
    with assms(2,3) have "r = map (\<lambda>x. f x (hd ys)) xs" and "s = map (\<lambda>x. g x (hd ys)) xs"
      by (simp_all add: broadcast_row_def)
    then show ?thesis
      using assms(1) by (simp only:) (rule count_true_mono, auto)
  next
    case none
    with assms(2) show ?thesis by (simp add: broadcast_row_def)
  qed
qed

lemma collect_mono:
  assumes "collect (map F ps) = Inr x" and "collect (map G ps) = Inr y"
    and "\<forall>p \<in> set ps. \<forall>r s. F p = Inr r \<longrightarrow> G p = Inr s \<longrightarrow>
           length (filter id r) \<le> length (filter id s)"
  shows "length (filter id (concat x)) \<le> length (filter id (concat y))"
  using assms
proof (induction ps arbitrary: x y)
  case Nil
  then show ?case by simp
next
  case (Cons p ps)
  from Cons.prems(1) obtain r x' where F: "F p = Inr r" and x': "collect (map F ps) = Inr x'"
    and x: "x = r # x'"
    by (cases "F p") (auto split: sum.splits)
  from Cons.prems(2) obtain s y' where G: "G p = Inr s" and y': "collect (map G ps) = Inr y'"
    and y: "y = s # y'"
    by (cases "G p") (auto split: sum.splits)
  from Cons.prems(3) F G have "length (filter id r) \<le> length (filter id s)"
    by (metis list.set_intros(1))
  moreover have "\<forall>p \<in> set ps. \<forall>r s. F p = Inr r \<longrightarrow> G p = Inr s \<longrightarrow>
           length (filter id r) \<le> length (filter id s)"
    using Cons.prems(3) by (metis list.set_intros(2))
  then have "length (filter id (concat x')) \<le> length (filter id (concat y'))"
    by (rule Cons.IH [OF x' y'])
  ultimately have "length (filter id r) + length (filter id (concat x'))
      \<le> length (filter id s) + length (filter id (concat y'))"
    by (rule add_mono)
  then show ?case by (simp add: x y id_def)
qed

lemma broadcast2_mono:
  assumes "\<forall>p q. f p q \<longrightarrow> g p q"
    and "broadcast2 f a b = Inr x" and "broadcast2 g a b = Inr y"
  shows "np_sum x \<le> np_sum y"
proof -
  note row = broadcast_row_mono [OF assms(1)]
  consider (same) "length a = length b"
    | (left) "length a \<noteq> length b" "length a = 1"
    | (right) "length a \<noteq> length b" "length a \<noteq> 1" "length b = 1"
    | (none) "length a \<noteq> length b" "length a \<noteq> 1" "length b \<noteq> 1"
    by blast
  then have "length (filter id (concat x)) \<le> length (filter id (concat y))"
  proof cases
    case same
    with assms(2,3)
    have "collect (map (\<lambda>(r, s). broadcast_row f r s) (zip a b)) = Inr x"
      and "collect (map (\<lambda>(r, s). broadcast_row g r s) (zip a b)) = Inr y"
      by (simp_all add: broadcast2_def)
    then show ?thesis by (rule collect_mono) (auto intro: row)
  next
    case left
    with assms(2,3)
    have "collect (map (broadcast_row f (hd a)) b) = Inr x"
      and "collect (map (broadcast_row g (hd a)) b) = Inr y"
      by (simp_all add: broadcast2_def)
    then show ?thesis by (rule collect_mono) (auto intro: row)
  next
    case right
    with assms(2,3)
    have "collect (map (\<lambda>r. broadcast_row f r (hd b)) a) = Inr x"
      and "collect (map (\<lambda>r. broadcast_row g r (hd b)) a) = Inr y"
      by (simp_all add: broadcast2_def)
    then show ?thesis by (rule collect_mono) (auto intro: row)
  next
    case none
    with assms(2) show ?thesis by (simp add: broadcast2_def)
  qed
  then show ?thesis by (simp add: np_sum_def)
qed

lemma collect_error: "collect rs = Inl e \<Longrightarrow> Inl e \<in> set rs"
proof (induction rs)
  case Nil
  then show ?case by simp
next
  case (Cons r rs)
  then show ?case by (cases r) (auto split: sum.splits)
qed

lemma broadcast_row_error: "broadcast_row f xs ys = Inl e \<Longrightarrow> e = ValueError"
  by (simp add: broadcast_row_def split: if_splits)

lemma collect_rows_error:
  assumes "collect (map F ps) = Inl e" and "\<And>p e'. F p = Inl e' \<Longrightarrow> e' = ValueError"
  shows "e = ValueError"
proof -
  from collect_error [OF assms(1)] obtain p where "F p = Inl e" by auto
  then show ?thesis by (rule assms(2))
qed

lemma broadcast2_error:
  assumes "broadcast2 f a b = Inl e"
  shows "e = ValueError"
proof -
  consider (same) "length a = length b"
    | (left) "length a \<noteq> length b" "length a = 1"
    | (right) "length a \<noteq> length b" "length a \<noteq> 1" "length b = 1"
    | (none) "length a \<noteq> length b" "length a \<noteq> 1" "length b \<noteq> 1"
    by blast
  then show ?thesis
  proof cases
    case same
    with assms have "collect (map (\<lambda>(r, s). broadcast_row f r s) (zip a b)) = Inl e"
      by (simp add: broadcast2_def)
    then show ?thesis
      by (rule collect_rows_error) (auto dest: broadcast_row_error)
  next
    case left
    with assms have "collect (map (broadcast_row f (hd a)) b) = Inl e"
      by (simp add: broadcast2_def)
    then show ?thesis
      by (rule collect_rows_error) (rule broadcast_row_error)
  next
    case right
    with assms have "collect (map (\<lambda>r. broadcast_row f r (hd b)) a) = Inl e"
      by (simp add: broadcast2_def)
    then show ?thesis
      by (rule collect_rows_error) (rule broadcast_row_error)
  next
    case none
    with assms show ?thesis by (simp add: broadcast2_def)
  qed
qed

text \<open>Whatever the shapes, every slot the loop fills holds counts with
  \<open>0 \<le> Intersection \<le> Union\<close>, and the loop can only raise the ValueError of
  shapes that do not broadcast.\<close>

lemma iou_loop_bounds:
  "iou_loop pred label vals = Inr (Intersection_arr, Union_arr) \<Longrightarrow>
   length Intersection_arr = length vals \<and> length Union_arr = length vals
   \<and> (\<forall>k < length vals. 0 \<le> Intersection_arr ! k \<and> Intersection_arr ! k \<le> Union_arr ! k)"
proof (induction vals arbitrary: Intersection_arr Union_arr)
  case Nil
  then show ?case by simp
next
  case (Cons v vals)
  from Cons.prems obtain both either I' U'
    where b: "logical_and (eq_mask label v) (eq_mask pred v) = Inr both"
      and e: "logical_or (eq_mask label v) (eq_mask pred v) = Inr either"
      and rest: "iou_loop pred label vals = Inr (I', U')"
      and I: "Intersection_arr = np_sum both # I'" and U: "Union_arr = np_sum either # U'"
    by (auto simp: Let_def split: sum.splits)
  have le: "np_sum both \<le> np_sum either"
    using b e unfolding logical_and_def logical_or_def
    by (intro broadcast2_mono [of "(\<and>)" "(\<or>)"]) auto
  have nonneg: "0 \<le> np_sum both" by (simp add: np_sum_def)
  from Cons.IH [OF rest] have ih: "length I' = length vals" "length U' = length vals"
    "\<forall>k < length vals. 0 \<le> I' ! k \<and> I' ! k \<le> U' ! k"
    by simp_all
  show ?case
  proof (intro conjI allI impI)
    fix k
    assume "k < length (v # vals)"
    then show "0 \<le> Intersection_arr ! k" and "Intersection_arr ! k \<le> Union_arr ! k"
      using le nonneg ih(3) by (cases k; simp add: I U)+
  qed (simp_all add: I U ih)
qed

lemma iou_loop_error: "iou_loop pred label vals = Inl e \<Longrightarrow> e = ValueError"
proof (induction vals)
  case Nil
  then show ?case by simp
next
  case (Cons v vals)
  then show ?case
    by (auto simp: Let_def logical_and_def logical_or_def split: sum.splits
        dest: broadcast2_error)
qed

text \<open>
  Claim C4. For maps of one shape \<open>compute_iou\<close> does not raise, and for maps of any
  shapes the only exception it can raise is the ValueError of shapes that do not
  broadcast. Whenever its loop has filled the arrays Intersection and Union, it
  returns their quotient: a slot whose union count is zero (its intersection count
  is then zero too) holds NaN in the returned array, and nothing is raised. The
  reducer treats such a NaN as it treats the sentinel: putting the sentinel where a
  cell is NaN changes nothing in what \<open>calculate_overall_iou_from_df\<close> returns, so
  both are left out of every mean.
\<close>

theorem compute_iou_never_raises:
  "(same_shape pred label \<longrightarrow> (\<exists>iou iou_labels. compute_iou pred label = Inr (iou, iou_labels)))
   \<and> (\<forall>e. compute_iou pred label = Inl e \<longrightarrow> e = ValueError)
   \<and> (\<forall>Intersection_arr Union_arr.
        iou_loop pred label (np_unique label) = Inr (Intersection_arr, Union_arr) \<longrightarrow>
        (\<exists>iou. compute_iou pred label = Inr (iou, np_unique label)
           \<and> length iou = length (np_unique label)
           \<and> (\<forall>k < length (np_unique label).
                 (Union_arr ! k = 0 \<longrightarrow> iou ! k = NaN)
               \<and> (Union_arr ! k \<noteq> 0 \<longrightarrow> iou ! k = Fin (Intersection_arr ! k / Union_arr ! k)))))
   \<and> calculate_overall_iou_from_df (df_map_cells nan_to_sentinel df) exclude_columns =
       calculate_overall_iou_from_df df exclude_columns"
proof (intro conjI impI allI)
  assume "same_shape pred label"
  then show "\<exists>iou iou_labels. compute_iou pred label = Inr (iou, iou_labels)"
    by (simp add: compute_iou_same)
next
  fix e
  assume "compute_iou pred label = Inl e"
  then have "iou_loop pred label (np_unique label) = Inl e"
    by (auto simp: compute_iou_def Let_def split: sum.splits)
  then show "e = ValueError" by (rule iou_loop_error)
next
  fix Intersection_arr Union_arr
  assume loop: "iou_loop pred label (np_unique label) = Inr (Intersection_arr, Union_arr)"
  let ?iou = "map2 true_divide Intersection_arr Union_arr"
  from iou_loop_bounds [OF loop]
  have len: "length Intersection_arr = length (np_unique label)"
      "length Union_arr = length (np_unique label)"
    and bounds: "\<forall>k < length (np_unique label).
        0 \<le> Intersection_arr ! k \<and> Intersection_arr ! k \<le> Union_arr ! k"
    by simp_all
  have res: "compute_iou pred label = Inr (?iou, np_unique label)"
    by (simp add: compute_iou_def Let_def loop)
  have slot: "?iou ! k = true_divide (Intersection_arr ! k) (Union_arr ! k)"
    if "k < length (np_unique label)" for k
    using that len by simp
  have zero: "?iou ! k = NaN" if "k < length (np_unique label)" and "Union_arr ! k = 0" for k
  proof -
    from bounds that have "Intersection_arr ! k = 0" by force
    with that(2) have "true_divide (Intersection_arr ! k) (Union_arr ! k) = NaN"
      by (simp add: true_divide_def)
    then show ?thesis by (simp only: slot [OF that(1)])
  qed
  have pos: "?iou ! k = Fin (Intersection_arr ! k / Union_arr ! k)"
    if "k < length (np_unique label)" and "Union_arr ! k \<noteq> 0" for k
  proof -
    from that(2) have "true_divide (Intersection_arr ! k) (Union_arr ! k) =
        Fin (Intersection_arr ! k / Union_arr ! k)"
      by (simp add: true_divide_def)
    then show ?thesis by (simp only: slot [OF that(1)])
  qed
  from res len zero pos
  show "\<exists>iou. compute_iou pred label = Inr (iou, np_unique label)
           \<and> length iou = length (np_unique label)
           \<and> (\<forall>k < length (np_unique label).
                 (Union_arr ! k = 0 \<longrightarrow> iou ! k = NaN)
               \<and> (Union_arr ! k \<noteq> 0 \<longrightarrow> iou ! k = Fin (Intersection_arr ! k / Union_arr ! k)))"
    by (intro exI [of _ ?iou]) simp
next
  have "df_columns (df_map_cells nan_to_sentinel df) = df_columns df"
    by (simp add: df_map_cells_def)
  then show "calculate_overall_iou_from_df (df_map_cells nan_to_sentinel df) exclude_columns =
       calculate_overall_iou_from_df df exclude_columns"
    by (simp add: calculate_overall_iou_from_df_def masked_column_map_cells)
qed

text \<open>The witness takes a prediction of shape (1, 0) against a ground truth of shape
  (1, 1): the masks broadcast to an array without pixels, the union of label 1 is
  empty, and the IoU returned is NaN.\<close>

theorem compute_iou_never_raises_witness:
  "same_shape [[1, 1], [1, 1 :: int]] [[0, 1], [2, 1 :: int]]
   \<and> (\<exists>iou iou_labels. compute_iou [[1, 1], [1, 1]] [[0, 1], [2, 1]] = Inr (iou, iou_labels))
   \<and> iou_loop [[]] [[1]] (np_unique [[1]]) = Inr ([0], [0])
   \<and> compute_iou [[]] [[1]] = Inr ([NaN], [1])
   \<and> calculate_overall_iou_from_df
        \<lparr>df_columns = [''ones''], df_rows = [[(''ones'', Fin (1 / 2))], [(''ones'', sentinel)]]\<rparr> [] =
      calculate_overall_iou_from_df
        \<lparr>df_columns = [''ones''], df_rows = [[(''ones'', Fin (1 / 2))], [(''ones'', NaN)]]\<rparr> []"
proof -
  have s: "same_shape [[1, 1], [1, 1 :: int]] [[0, 1], [2, 1 :: int]]"
    by (simp add: same_shape_def)
  note spec = compute_iou_never_raises [of "[[1, 1], [1, 1]]" "[[0, 1], [2, 1]]"
      "\<lparr>df_columns = [''ones''], df_rows = [[(''ones'', Fin (1 / 2))], [(''ones'', NaN)]]\<rparr>" "[]"]
  from spec [THEN conjunct1] s
  have r: "\<exists>iou iou_labels. compute_iou [[1, 1], [1, 1]] [[0, 1], [2, 1]] = Inr (iou, iou_labels)"
    by (rule mp)
  have u: "np_unique [[1]] = [1]" by (simp add: np_unique_def)
  have loop: "iou_loop [[]] [[1]] (np_unique [[1]]) = Inr ([0], [0])"
    by (simp add: u eq_mask_def logical_and_def logical_or_def broadcast2_def
        broadcast_row_def np_sum_def)
  note empty = compute_iou_never_raises [of "[[]]" "[[1]]",
      THEN conjunct2, THEN conjunct2, THEN conjunct1, rule_format, OF loop]
  then obtain iou where res: "compute_iou [[]] [[1]] = Inr (iou, np_unique [[1]])"
    and len: "length iou = length (np_unique [[1 :: int]])"
    and slots: "\<forall>k < length (np_unique [[1 :: int]]).
        ([0 :: real] ! k = 0 \<longrightarrow> iou ! k = NaN)
      \<and> ([0 :: real] ! k \<noteq> 0 \<longrightarrow> iou ! k = Fin ([0] ! k / [0] ! k))"
    by (elim exE conjE)
  from slots have "iou ! 0 = NaN" by (simp add: u)
  moreover from len have "length iou = 1" by (simp add: u)
  ultimately have "iou = [NaN]" by (cases iou) simp_all
  with res have nan: "compute_iou [[]] [[1]] = Inr ([NaN], [1])" by (simp add: u)
  have m: "df_map_cells nan_to_sentinel
      \<lparr>df_columns = [''ones''], df_rows = [[(''ones'', Fin (1 / 2))], [(''ones'', NaN)]]\<rparr> =
      \<lparr>df_columns = [''ones''], df_rows = [[(''ones'', Fin (1 / 2))], [(''ones'', sentinel)]]\<rparr>"
    by (simp add: df_map_cells_def nan_to_sentinel_def)
  from spec have "calculate_overall_iou_from_df (df_map_cells nan_to_sentinel
        \<lparr>df_columns = [''ones''], df_rows = [[(''ones'', Fin (1 / 2))], [(''ones'', NaN)]]\<rparr>) [] =
      calculate_overall_iou_from_df
        \<lparr>df_columns = [''ones''], df_rows = [[(''ones'', Fin (1 / 2))], [(''ones'', NaN)]]\<rparr> []"
    by (elim conjE)
  then have red: "calculate_overall_iou_from_df
        \<lparr>df_columns = [''ones''], df_rows = [[(''ones'', Fin (1 / 2))], [(''ones'', sentinel)]]\<rparr> [] =
      calculate_overall_iou_from_df
        \<lparr>df_columns = [''ones''], df_rows = [[(''ones'', Fin (1 / 2))], [(''ones'', NaN)]]\<rparr> []"
    by (simp only: m)
  from s r loop nan red show ?thesis by (intro conjI)
qed

section \<open>Properties of calculate_centroids\<close>

lemma sum_list_enumerate:
  "sum_list (map f (enumerate 0 xs)) = (\<Sum>i<length xs. f (i, xs ! i))"
proof -
  have "sum_list (map f (enumerate 0 xs)) = (\<Sum>i = 0..<length xs. map f (enumerate 0 xs) ! i)"
    by (simp add: sum_list_sum_nth)
  also have "\<dots> = (\<Sum>i = 0..<length xs. f (i, xs ! i))"
    by (rule sum.cong) (simp_all add: nth_enumerate_eq)
  finally show ?thesis by (simp add: lessThan_atLeast0)
qed

lemma pixels_of_Sigma:
  "pixels_of labels v =
     (SIGMA r : {..<length labels}. {c. c < length (labels ! r) \<and> labels ! r ! c = v})"
  by (auto simp: pixels_of_def)

lemma finite_pixels_of: "finite (pixels_of labels v)"
  unfolding pixels_of_Sigma by (rule finite_SigmaI) simp_all

lemma weighted_sum_pixels:
  "weighted_sum w (eq_mask labels v) = (\<Sum>(r, c) \<in> pixels_of labels v. w r c)"
proof -
  have row: "(\<Sum>c<n. if P c then g c else 0) = (\<Sum>c \<in> {c. c < n \<and> P c}. g c)"
    for n :: nat and P and g :: "nat \<Rightarrow> real"
    using sum.inter_filter [of "{..<n}" g P] by simp
  have "weighted_sum w (eq_mask labels v) =
        (\<Sum>r<length labels. \<Sum>c \<in> {c. c < length (labels ! r) \<and> labels ! r ! c = v}. w r c)"
    by (simp add: weighted_sum_def eq_mask_def sum_list_enumerate row cong: conj_cong)
  also have "\<dots> = (\<Sum>(r, c) \<in> pixels_of labels v. w r c)"
    unfolding pixels_of_Sigma by (rule sum.Sigma) simp_all
  finally show ?thesis .
qed

lemma normalizer_card:
  "weighted_sum (\<lambda>r c. 1) (eq_mask labels v) = real (card (pixels_of labels v))"
  by (simp add: weighted_sum_pixels case_prod_unfold)

lemma pixels_of_present:
  assumes "v \<in> set (concat labels)"
  shows "0 < card (pixels_of labels v)"
proof -
  from assms obtain cells where "cells \<in> set labels" and "v \<in> set cells" by auto
  then obtain r c where "r < length labels" and "labels ! r = cells"
    and "c < length cells" and "cells ! c = v"
    by (metis in_set_conv_nth)
  then have "(r, c) \<in> pixels_of labels v" by (simp add: pixels_of_def)
  with finite_pixels_of [of labels v] show ?thesis
    by (auto simp: card_gt_0_iff)
qed

lemma calc_centroid_mask:
  assumes "v \<in> set (concat labels)"
  shows "calc_centroid (eq_mask labels v) = (\<lfloor>mean_row labels v\<rfloor>, \<lfloor>mean_col labels v\<rfloor>)"
proof -
  have pos: "0 < card (pixels_of labels v)" by (rule pixels_of_present [OF assms])
  have r: "0 \<le> mean_row labels v"
    unfolding mean_row_def by (intro divide_nonneg_nonneg sum_nonneg) auto
  have c: "0 \<le> mean_col labels v"
    unfolding mean_col_def by (intro divide_nonneg_nonneg sum_nonneg) auto
  have "center_of_mass (eq_mask labels v) = (Fin (mean_row labels v), Fin (mean_col labels v))"
    using pos
    by (simp add: center_of_mass_def Let_def normalizer_card weighted_sum_pixels true_divide_def
        mean_row_def mean_col_def)
  with r c show ?thesis by (simp add: calc_centroid_def)
qed

lemma centroid_loop_no_cca:
  "centroid_loop measure_label False (zip (map (eq_mask labels) vs) vs) centroids centroid_labels =
     (centroids @ map (\<lambda>v. calc_centroid (eq_mask labels v)) vs, centroid_labels @ vs)"
  by (induction vs arbitrary: centroids centroid_labels) simp_all

lemma calculate_centroids_no_cca:
  "calculate_centroids measure_label labels False background =
     (map (\<lambda>v. calc_centroid (eq_mask labels v)) (set_minus (np_unique labels) background),
      set_minus (np_unique labels) background)"
  by (simp add: calculate_centroids_def Let_def centroid_loop_no_cca)

text \<open>
  Claim C5, as amended. For every label map and background value,
  \<open>calculate_centroids\<close> without connected-component analysis returns exactly one
  centroid per distinct label of the map other than the background, paired with that
  label; the centroid is the mean position (row, column) of the pixels that carry the
  label, each coordinate with its fraction cut off (the greatest integer that is not
  above the mean), not rounded to the nearest integer.
\<close>

theorem calculate_centroids_no_cca_contract:
  "\<exists>centroids centroid_labels.
     calculate_centroids measure_label labels False background = (centroids, centroid_labels)
   \<and> distinct centroid_labels
   \<and> set centroid_labels = set (concat labels) - {background}
   \<and> length centroids = card (set (concat labels) - {background})
   \<and> length centroid_labels = length centroids
   \<and> (\<forall>k < length centroid_labels.
        centroids ! k = (\<lfloor>mean_row labels (centroid_labels ! k)\<rfloor>,
                         \<lfloor>mean_col labels (centroid_labels ! k)\<rfloor>))"
proof -
  let ?ls = "set_minus (np_unique labels) background"
  let ?cs = "map (\<lambda>v. calc_centroid (eq_mask labels v)) ?ls"
  have d: "distinct ?ls" by (simp add: set_minus_def np_unique_def)
  have s: "set ?ls = set (concat labels) - {background}"
    by (auto simp: set_minus_def set_np_unique simp del: set_concat)
  from d s have n: "length ?cs = card (set (concat labels) - {background})"
    by (metis distinct_card length_map)
  have c: "?cs ! k = (\<lfloor>mean_row labels (?ls ! k)\<rfloor>, \<lfloor>mean_col labels (?ls ! k)\<rfloor>)"
    if "k < length ?ls" for k
  proof -
    from that have "?ls ! k \<in> set ?ls" by (rule nth_mem)
    with s have "?ls ! k \<in> set (concat labels)" by blast
    then show ?thesis using that by (simp add: calc_centroid_mask del: set_concat)
  qed
  from d s n c show ?thesis
    by (intro exI [of _ ?cs] exI [of _ ?ls]) (simp add: calculate_centroids_no_cca)
qed

lemma mean_col_weighted:
  "mean_col labels v =
     weighted_sum (\<lambda>r c. real c) (eq_mask labels v) / weighted_sum (\<lambda>r c. 1) (eq_mask labels v)"
  by (simp add: mean_col_def normalizer_card weighted_sum_pixels)

lemma mean_row_weighted:
  "mean_row labels v =
     weighted_sum (\<lambda>r c. real r) (eq_mask labels v) / weighted_sum (\<lambda>r c. 1) (eq_mask labels v)"
  by (simp add: mean_row_def normalizer_card weighted_sum_pixels)

theorem calculate_centroids_no_cca_contract_witness:
  "calculate_centroids (\<lambda>m. []) [[0, 1, 1], [2, 1, 0], [2, 2, 2]] False 0 = ([(0, 1), (1, 0)], [1, 2])
   \<and> \<lfloor>mean_row [[0, 1, 1], [2, 1, 0], [2, 2, 2]] 1\<rfloor> = 0
   \<and> \<lfloor>mean_col [[0, 1, 1], [2, 1, 0], [2, 2, 2]] 1\<rfloor> = 1"
proof -
  let ?L = "[[0, 1, 1], [2, 1, 0], [2, 2, 2 :: int]]"
  have v: "calculate_centroids (\<lambda>m. []) ?L False 0 = ([(0, 1), (1, 0)], [1, 2])"
    by code_simp
  from calculate_centroids_no_cca_contract [of "\<lambda>m. []" ?L 0]
  obtain centroids centroid_labels
    where "calculate_centroids (\<lambda>m. []) ?L False 0 = (centroids, centroid_labels)"
      and "\<forall>k < length centroid_labels.
        centroids ! k = (\<lfloor>mean_row ?L (centroid_labels ! k)\<rfloor>, \<lfloor>mean_col ?L (centroid_labels ! k)\<rfloor>)"
    by blast
  with v have "\<forall>k < length [1, 2 :: int].
        [(0, 1), (1, 0)] ! k = (\<lfloor>mean_row ?L ([1, 2] ! k)\<rfloor>, \<lfloor>mean_col ?L ([1, 2] ! k)\<rfloor>)"
    by simp
  then have "[(0, 1), (1, 0)] ! 0 = (\<lfloor>mean_row ?L ([1, 2] ! 0)\<rfloor>, \<lfloor>mean_col ?L ([1, 2] ! 0)\<rfloor>)"
    by (elim allE [of _ 0]) simp
  with v show ?thesis by simp
qed

text \<open>
  The claim as stated, with the mean rounded to an integer, fails: in the map below
  label 5 sits at (0, 0), (0, 1) and (1, 1), its mean column is 2/3, which rounds to
  1, and the centroid returned has column 0.
\<close>

theorem calculate_centroids_truncates:
  "calculate_centroids (\<lambda>m. []) [[5, 5], [0, 5]] False 0 = ([(0, 0)], [5])
   \<and> mean_row [[5, 5], [0, 5]] 5 = 1 / 3
   \<and> mean_col [[5, 5], [0, 5]] 5 = 2 / 3
   \<and> round (mean_col [[5, 5], [0, 5]] 5) = 1"
proof -
  have a: "calculate_centroids (\<lambda>m. []) [[5, 5], [0, 5]] False 0 = ([(0, 0)], [5])"
    by code_simp
  have r: "mean_row [[5, 5], [0, 5]] 5 = 1 / 3"
    by (simp add: mean_row_weighted weighted_sum_def eq_mask_def)
  have c: "mean_col [[5, 5], [0, 5]] 5 = 2 / 3"
    by (simp add: mean_col_weighted weighted_sum_def eq_mask_def)
  have "round (2 / 3 :: real) = 1" by (simp add: round_def)
  then have n: "round (mean_col [[5, 5], [0, 5]] 5) = 1" by (simp only: c)
  from a r c n show ?thesis by (intro conjI)
qed

section \<open>Properties of semantic_remap_dict2remap_dict\<close>

lemma distinct_PART_LIST: "distinct PART_LIST"
  by (simp add: PART_LIST_def)

lemma list_index_absent: "x \<notin> set xs \<Longrightarrow> list_index xs x = Inl ValueError"
  by (induction xs) auto

lemma list_index_present:
  "x \<in> set xs \<Longrightarrow> \<exists>k. list_index xs x = Inr k \<and> k < length xs \<and> xs ! k = x"
  by (induction xs) auto

lemma list_index_Inr:
  "list_index xs x = Inr k \<Longrightarrow> k < length xs \<and> xs ! k = x"
  by (induction xs arbitrary: k) (auto split: if_splits sum.splits)

lemma list_index_error: "list_index xs x = Inl e \<Longrightarrow> e = ValueError \<and> x \<notin> set xs"
  by (induction xs) (auto split: if_splits sum.splits)

lemma part_id_inj:
  assumes "a \<in> set PART_LIST" and "b \<in> set PART_LIST" and "part_id a = part_id b"
  shows "a = b"
proof -
  from list_index_present [OF assms(1)] obtain k where "list_index PART_LIST a = Inr k" and "PART_LIST ! k = a"
    by blast
  moreover from list_index_present [OF assms(2)] obtain l where "list_index PART_LIST b = Inr l" and "PART_LIST ! l = b"
    by blast
  ultimately show ?thesis using assms(3) by (simp add: part_id_def)
qed

lemma index_items_known:
  "set old_keys \<subseteq> set PART_LIST \<Longrightarrow>
   index_items old_keys i = Inr (map (\<lambda>old. (int (part_id old), int i)) old_keys)"
proof (induction old_keys)
  case Nil
  show ?case by simp
next
  case (Cons old old_keys)
  then obtain k where "list_index PART_LIST old = Inr k"
    using list_index_present [of old PART_LIST] by auto
  with Cons show ?case by (simp add: part_id_def)
qed

lemma index_items_unknown:
  "\<not> set old_keys \<subseteq> set PART_LIST \<Longrightarrow> index_items old_keys i = Inl ValueError"
proof (induction old_keys)
  case Nil
  then show ?case by simp
next
  case (Cons old old_keys)
  show ?case
  proof (cases "old \<in> set PART_LIST")
    case False
    then show ?thesis by (simp add: list_index_absent)
  next
    case True
    with Cons.prems have "\<not> set old_keys \<subseteq> set PART_LIST" by simp
    then have "index_items old_keys i = Inl ValueError" by (rule Cons.IH)
    moreover from True obtain k where "list_index PART_LIST old = Inr k"
      using list_index_present [of old PART_LIST] by auto
    ultimately show ?thesis by simp
  qed
qed

lemma dict_get_key:
  "new_label \<in> fst ` set d \<Longrightarrow> dict_get d new_label = Inr (group_of d new_label)"
  by (auto simp: dict_get_def group_of_def map_of_eq_None_iff split: option.splits)

lemma semantic_loop_known:
  assumes "\<forall>p \<in> set ps. snd p \<in> fst ` set srd \<and> set (group_of srd (snd p)) \<subseteq> set PART_LIST"
  shows "semantic_loop srd ps remap_dict =
     Inr (foldl (\<lambda>d p. dict_update d (dict_of (resolved_items srd p))) remap_dict ps)"
  using assms
proof (induction ps arbitrary: remap_dict)
  case Nil
  show ?case by simp
next
  case (Cons p ps)
  obtain i new_label where p: "p = (i, new_label)" by (cases p)
  from Cons.prems have "new_label \<in> fst ` set srd"
    and "set (group_of srd new_label) \<subseteq> set PART_LIST"
    by (simp_all add: p)
  then show ?case
    using Cons.prems
    by (simp add: p dict_get_key index_items_known Cons.IH resolved_items_def)
qed

lemma semantic_loop_unknown:
  assumes "\<forall>p \<in> set ps. snd p \<in> fst ` set srd"
    and "\<exists>p \<in> set ps. \<not> set (group_of srd (snd p)) \<subseteq> set PART_LIST"
  shows "semantic_loop srd ps remap_dict = Inl ValueError"
  using assms
proof (induction ps arbitrary: remap_dict)
  case Nil
  then show ?case by simp
next
  case (Cons p ps)
  obtain i new_label where p: "p = (i, new_label)" by (cases p)
  from Cons.prems(1) have key: "new_label \<in> fst ` set srd" by (simp add: p)
  show ?case
  proof (cases "set (group_of srd new_label) \<subseteq> set PART_LIST")
    case False
    with key show ?thesis by (simp add: p dict_get_key index_items_unknown)
  next
    case True
    with Cons.prems(2) have "\<exists>p \<in> set ps. \<not> set (group_of srd (snd p)) \<subseteq> set PART_LIST"
      by (simp add: p)
    with Cons.prems(1) have "semantic_loop srd ps d = Inl ValueError" for d
      by (intro Cons.IH) simp_all
    with key True show ?thesis by (simp add: p dict_get_key index_items_known)
  qed
qed

lemma map_of_update_chain:
  "map_of (foldl (\<lambda>d p. dict_update d (dict_of (items p))) remap_dict ps) =
     map_of remap_dict ++ map_of (rev (concat (map items ps)))"
  by (induction ps arbitrary: remap_dict) (simp_all add: map_of_update_with_dict)

lemma distinct_update_chain:
  "distinct (map fst remap_dict) \<Longrightarrow>
   distinct (map fst (foldl (\<lambda>d p. dict_update d (dict_of (items p))) remap_dict ps))"
  by (induction ps arbitrary: remap_dict) (simp_all add: distinct_dict_update)

lemma map_of_rev_Some:
  assumes "(k, v) \<in> set xs" and "\<forall>v'. (k, v') \<in> set xs \<longrightarrow> v' = v"
  shows "map_of (rev xs) k = Some v"
proof -
  from assms(1) have "k \<in> fst ` set (rev xs)" by force
  then have "map_of (rev xs) k \<noteq> None" by (simp only: map_of_eq_None_iff not_not)
  then obtain v' where "map_of (rev xs) k = Some v'" by blast
  moreover from this have "(k, v') \<in> set xs" by (auto dest: map_of_SomeD)
  ultimately show ?thesis using assms(2) by simp
qed

lemma last_group_wins:
  assumes "i < length gs" and "(k, v) \<in> set (gs ! i)"
    and "\<forall>v'. (k, v') \<in> set (gs ! i) \<longrightarrow> v' = v"
    and "\<forall>j. i < j \<and> j < length gs \<longrightarrow> k \<notin> fst ` set (gs ! j)"
  shows "map_of (rev (concat gs)) k = Some v"
proof -
  have split: "gs = take i gs @ gs ! i # drop (Suc i) gs"
    using assms(1) by (rule id_take_nth_drop)
  have later: "k \<notin> fst ` set (concat (drop (Suc i) gs))"
  proof
    assume "k \<in> fst ` set (concat (drop (Suc i) gs))"
    then obtain g where "g \<in> set (drop (Suc i) gs)" and "k \<in> fst ` set g" by auto
    then obtain n where "n < length (drop (Suc i) gs)" and "drop (Suc i) gs ! n = g"
      by (metis in_set_conv_nth)
    then have n: "Suc i + n < length gs" and g: "gs ! (Suc i + n) = g" by auto
    from assms(4) have "i < Suc i + n \<and> Suc i + n < length gs \<longrightarrow> k \<notin> fst ` set (gs ! (Suc i + n))"
      by blast
    with n g \<open>k \<in> fst ` set g\<close> show False by simp
  qed
  then have none: "map_of (rev (concat (drop (Suc i) gs))) k = None"
    by (simp add: map_of_eq_None_iff)
  have here: "map_of (rev (gs ! i)) k = Some v"
    by (rule map_of_rev_Some [OF assms(2,3)])
  have "concat gs = concat (take i gs) @ gs ! i @ concat (drop (Suc i) gs)"
    by (subst split) simp
  then have "map_of (rev (concat gs)) k =
      (map_of (rev (concat (take i gs))) ++ map_of (rev (gs ! i))
         ++ map_of (rev (concat (drop (Suc i) gs)))) k"
    by (simp add: map_add_assoc)
  with none here show ?thesis by (simp add: map_add_def)
qed

lemma part_id_index:
  "old \<in> set PART_LIST \<Longrightarrow> list_index PART_LIST old = Inr (part_id old)"
  using list_index_present [of old PART_LIST] by (auto simp: part_id_def)

text \<open>
  Claim C7, as amended. For every grouping table and every ordered list of new
  category names that are all keys of the table: if an old part name of a listed
  category is not in \<open>PART_LIST\<close>, the function fails with the ValueError of
  \<open>PART_LIST.index\<close>, which it hands to its caller; if all old names of the listed
  categories are in \<open>PART_LIST\<close>, it returns a dict whose keys are the ids of these
  old names, and which sends the id of an old name to the position, in the ordered
  list, of the category that groups it (the last such position, should the name
  stand in the groups of several positions). The id of a name is its position in
  \<open>PART_LIST\<close>.
\<close>

theorem semantic_remap_dict2remap_dict_contract:
  assumes "set new_part_list \<subseteq> fst ` set srd"
  shows "((\<exists>new_label \<in> set new_part_list. \<exists>old \<in> set (group_of srd new_label).
              old \<notin> set PART_LIST) \<longrightarrow>
            semantic_remap_dict2remap_dict srd new_part_list = Inl ValueError)
   \<and> ((\<forall>new_label \<in> set new_part_list. set (group_of srd new_label) \<subseteq> set PART_LIST) \<longrightarrow>
        (\<exists>remap_dict.
            semantic_remap_dict2remap_dict srd new_part_list = Inr remap_dict
          \<and> distinct (map fst remap_dict)
          \<and> fst ` set remap_dict =
              (\<lambda>old. int (part_id old)) ` (\<Union>new_label \<in> set new_part_list. set (group_of srd new_label))
          \<and> (\<forall>i < length new_part_list. \<forall>old \<in> set (group_of srd (new_part_list ! i)).
                (\<forall>j. i < j \<and> j < length new_part_list \<longrightarrow>
                     old \<notin> set (group_of srd (new_part_list ! j))) \<longrightarrow>
                map_of remap_dict (int (part_id old)) = Some (int i))))
   \<and> (\<forall>old \<in> set PART_LIST. list_index PART_LIST old = Inr (part_id old))"
proof (intro conjI impI ballI)
  let ?ps = "enumerate 0 new_part_list"
  have keys: "\<forall>p \<in> set ?ps. snd p \<in> fst ` set srd"
    using assms by (auto simp: in_set_enumerate_eq)
  {
    assume "\<exists>new_label \<in> set new_part_list. \<exists>old \<in> set (group_of srd new_label).
              old \<notin> set PART_LIST"
    then obtain new_label where listed: "new_label \<in> set new_part_list"
      and bad: "\<not> set (group_of srd new_label) \<subseteq> set PART_LIST"
      by auto
    from listed obtain i where "i < length new_part_list" and "new_part_list ! i = new_label"
      by (auto simp: in_set_conv_nth)
    then have "(i, new_label) \<in> set ?ps" by (simp add: in_set_enumerate_eq)
    with bad have "\<exists>p \<in> set ?ps. \<not> set (group_of srd (snd p)) \<subseteq> set PART_LIST"
      by force
    then show "semantic_remap_dict2remap_dict srd new_part_list = Inl ValueError"
      unfolding semantic_remap_dict2remap_dict_def
      by (rule semantic_loop_unknown [OF keys])
  next
    assume known: "\<forall>new_label \<in> set new_part_list. set (group_of srd new_label) \<subseteq> set PART_LIST"
    let ?gs = "map (resolved_items srd) ?ps"
    let ?remap = "foldl (\<lambda>d p. dict_update d (dict_of (resolved_items srd p))) [] ?ps"
    have listed: "\<forall>p \<in> set ?ps. snd p \<in> set new_part_list"
      by (auto simp: in_set_enumerate_eq)
    have res: "semantic_remap_dict2remap_dict srd new_part_list = Inr ?remap"
      unfolding semantic_remap_dict2remap_dict_def
      using keys known listed by (intro semantic_loop_known) blast
    have d: "distinct (map fst ?remap)"
      by (rule distinct_update_chain) simp
    have m: "map_of ?remap = map_of (rev (concat ?gs))"
      by (simp add: map_of_update_chain)
    have g: "?gs ! i = map (\<lambda>old. (int (part_id old), int i)) (group_of srd (new_part_list ! i))"
      if "i < length new_part_list" for i
      using that by (simp add: resolved_items_def nth_enumerate_eq)
    have "fst ` set ?remap = dom (map_of ?remap)"
      by (simp add: dom_map_of_conv_image_fst)
    also have "\<dots> = fst ` set (concat ?gs)"
      by (simp add: m dom_map_of_conv_image_fst del: set_concat)
    also have "\<dots> = (\<lambda>old. int (part_id old)) ` (\<Union>new_label \<in> set new_part_list. set (group_of srd new_label))"
    proof -
      have "set (concat ?gs) =
          (\<Union>i \<in> {..<length new_part_list}.
             (\<lambda>old. (int (part_id old), int i)) ` set (group_of srd (new_part_list ! i)))"
      proof -
        have "set ?ps = (\<lambda>i. (i, new_part_list ! i)) ` {..<length new_part_list}"
          by (auto simp: in_set_enumerate_eq image_iff)
        then show ?thesis by (simp add: resolved_items_def image_image)
      qed
      moreover have "set new_part_list = (\<lambda>i. new_part_list ! i) ` {..<length new_part_list}"
        by (auto simp: in_set_conv_nth)
      ultimately show ?thesis by (simp add: image_UN image_image del: set_concat)
    qed
    finally have dom: "fst ` set ?remap =
        (\<lambda>old. int (part_id old)) ` (\<Union>new_label \<in> set new_part_list. set (group_of srd new_label))" .
    have last: "map_of ?remap (int (part_id old)) = Some (int i)"
      if i: "i < length new_part_list" and old: "old \<in> set (group_of srd (new_part_list ! i))"
        and later: "\<forall>j. i < j \<and> j < length new_part_list \<longrightarrow>
                      old \<notin> set (group_of srd (new_part_list ! j))"
      for i old
    proof -
      have oldP: "old \<in> set PART_LIST" using known old i by (meson nth_mem subsetD)
      have 1: "i < length ?gs" using i by simp
      have 2: "(int (part_id old), int i) \<in> set (?gs ! i)"
        unfolding g [OF i] using old by simp
      have 3: "\<forall>v'. (int (part_id old), v') \<in> set (?gs ! i) \<longrightarrow> v' = int i"
        unfolding g [OF i] by auto
      have 4: "\<forall>j. i < j \<and> j < length ?gs \<longrightarrow> int (part_id old) \<notin> fst ` set (?gs ! j)"
      proof (intro allI impI notI)
        fix j
        assume j: "i < j \<and> j < length ?gs"
          and mem: "int (part_id old) \<in> fst ` set (?gs ! j)"
        from j have jl: "j < length new_part_list" by simp
        from mem have "int (part_id old) \<in>
            fst ` set (map (\<lambda>old. (int (part_id old), int j)) (group_of srd (new_part_list ! j)))"
          by (simp only: g [OF jl])
        then obtain old' where o': "old' \<in> set (group_of srd (new_part_list ! j))"
          and "part_id old' = part_id old"
          by auto
        moreover have "old' \<in> set PART_LIST" using known o' jl by (meson nth_mem subsetD)
        ultimately have "old' = old" using oldP by (intro part_id_inj)
        with o' later j show False by simp
      qed
      show ?thesis
        unfolding m by (rule last_group_wins [OF 1 2 3 4])
    qed
    from res d dom last
    show "\<exists>remap_dict.
            semantic_remap_dict2remap_dict srd new_part_list = Inr remap_dict
          \<and> distinct (map fst remap_dict)
          \<and> fst ` set remap_dict =
              (\<lambda>old. int (part_id old)) ` (\<Union>new_label \<in> set new_part_list. set (group_of srd new_label))
          \<and> (\<forall>i < length new_part_list. \<forall>old \<in> set (group_of srd (new_part_list ! i)).
                (\<forall>j. i < j \<and> j < length new_part_list \<longrightarrow>
                     old \<notin> set (group_of srd (new_part_list ! j))) \<longrightarrow>
                map_of remap_dict (int (part_id old)) = Some (int i))"
      by (intro exI [of _ ?remap]) blast
  next
    fix old
    assume "old \<in> set PART_LIST"
    then show "list_index PART_LIST old = Inr (part_id old)" by (rule part_id_index)
  }
qed

theorem semantic_remap_dict2remap_dict_contract_witness:
  "semantic_remap_dict2remap_dict [(''arm'', [''left_upper_arm'', ''right_upper_arm1''])] [''arm'']
     = Inl ValueError
   \<and> (\<exists>remap_dict.
        semantic_remap_dict2remap_dict
          [(''arm'', [''left_upper_arm1'', ''right_upper_arm1'']),
           (''head'', [''left_head'', ''right_head'']),
           (''background'', [''background''])]
          [''arm'', ''head'', ''background''] = Inr remap_dict
      \<and> map_of remap_dict 23 = Some 1)"
proof -
  define bad where "bad = [(''arm'', [''left_upper_arm'', ''right_upper_arm1''])]"
  define srd where "srd = [(''arm'', [''left_upper_arm1'', ''right_upper_arm1'']),
           (''head'', [''left_head'', ''right_head'']),
           (''background'', [''background''])]"
  define npl where "npl = [''arm'', ''head'', ''background'']"
  have b3: "set [''arm''] \<subseteq> fst ` set bad"
    by (simp add: bad_def)
  have unknown: "\<exists>new_label \<in> set [''arm'']. \<exists>old \<in> set (group_of bad new_label).
      old \<notin> set PART_LIST"
    by (simp add: bad_def group_of_def PART_LIST_def)
  note spec_bad = semantic_remap_dict2remap_dict_contract [OF b3]
  from spec_bad [THEN conjunct1] unknown
  have fails: "semantic_remap_dict2remap_dict bad [''arm''] = Inl ValueError"
    by (rule mp)
  have g3: "set npl \<subseteq> fst ` set srd"
    by (simp add: srd_def npl_def)
  have known: "\<forall>new_label \<in> set npl. set (group_of srd new_label) \<subseteq> set PART_LIST"
    by (simp add: srd_def npl_def group_of_def PART_LIST_def subset_iff)
  note spec = semantic_remap_dict2remap_dict_contract [OF g3]
  from spec [THEN conjunct2, THEN conjunct1] known
  have "\<exists>remap_dict.
            semantic_remap_dict2remap_dict srd npl = Inr remap_dict
          \<and> distinct (map fst remap_dict)
          \<and> fst ` set remap_dict =
              (\<lambda>old. int (part_id old)) ` (\<Union>new_label \<in> set npl. set (group_of srd new_label))
          \<and> (\<forall>i < length npl. \<forall>old \<in> set (group_of srd (npl ! i)).
                (\<forall>j. i < j \<and> j < length npl \<longrightarrow> old \<notin> set (group_of srd (npl ! j))) \<longrightarrow>
                map_of remap_dict (int (part_id old)) = Some (int i))"
    by (rule mp)
  then obtain remap_dict where res: "semantic_remap_dict2remap_dict srd npl = Inr remap_dict"
    and last: "\<forall>i < length npl. \<forall>old \<in> set (group_of srd (npl ! i)).
                (\<forall>j. i < j \<and> j < length npl \<longrightarrow> old \<notin> set (group_of srd (npl ! j))) \<longrightarrow>
                map_of remap_dict (int (part_id old)) = Some (int i)"
    by (elim exE conjE)
  have len: "length npl = 3" by (simp add: npl_def)
  have later: "\<forall>j. 1 < j \<and> j < length npl \<longrightarrow> ''left_head'' \<notin> set (group_of srd (npl ! j))"
  proof (intro allI impI)
    fix j :: nat
    assume "1 < j \<and> j < length npl"
    with len have "j = 2" by simp
    then show "''left_head'' \<notin> set (group_of srd (npl ! j))"
      by (simp add: group_of_def srd_def npl_def)
  qed
  have here: "''left_head'' \<in> set (group_of srd (npl ! 1))"
    by (simp add: group_of_def srd_def npl_def)
  have id: "part_id ''left_head'' = 23"
    by (simp add: part_id_def PART_LIST_def)
  from last len have "\<forall>old \<in> set (group_of srd (npl ! 1)).
                (\<forall>j. 1 < j \<and> j < length npl \<longrightarrow> old \<notin> set (group_of srd (npl ! j))) \<longrightarrow>
                map_of remap_dict (int (part_id old)) = Some (int 1)"
    by (elim allE [of _ 1]) simp
  from this here have "(\<forall>j. 1 < j \<and> j < length npl \<longrightarrow> ''left_head'' \<notin> set (group_of srd (npl ! j))) \<longrightarrow>
                map_of remap_dict (int (part_id ''left_head'')) = Some (int 1)"
    by (rule bspec)
  from this later have "map_of remap_dict (int (part_id ''left_head'')) = Some (int 1)"
    by (rule mp)
  then have "map_of remap_dict 23 = Some 1" by (simp add: id)
  with res have "\<exists>remap_dict. semantic_remap_dict2remap_dict srd npl = Inr remap_dict
      \<and> map_of remap_dict 23 = Some 1"
    by (intro exI [of _ remap_dict] conjI)
  with fails show ?thesis
    unfolding bad_def srd_def npl_def by (rule conjI)
qed

text \<open>
  The claim as stated, for every table and every list, fails twice. An old name
  that is not in \<open>PART_LIST\<close> raises nothing when its category is not in the list:
  the loop runs over the list, not over the table. And with every old name in
  \<open>PART_LIST\<close> the function still raises, a KeyError, when the list holds a name
  that is no key of the table.
\<close>

theorem semantic_remap_dict2remap_dict_unlisted:
  "semantic_remap_dict2remap_dict [(''a'', [''back'']), (''c'', [''nope''])] [''a''] = Inr [(1, 0)]
   \<and> ''nope'' \<notin> set PART_LIST
   \<and> semantic_remap_dict2remap_dict [(''arm'', [''back''])] [''arm'', ''leg''] = Inl KeyError
   \<and> set [''back''] \<subseteq> set PART_LIST"
proof -
  have a: "semantic_remap_dict2remap_dict [(''a'', [''back'']), (''c'', [''nope''])] [''a'']
      = Inr [(1, 0)]"
    by code_simp
  have b: "semantic_remap_dict2remap_dict [(''arm'', [''back''])] [''arm'', ''leg''] = Inl KeyError"
    by code_simp
  have c: "''nope'' \<notin> set PART_LIST" and d: "set [''back''] \<subseteq> set PART_LIST"
    by (simp_all add: PART_LIST_def)
  from a c b d show ?thesis by (intro conjI)
qed

section \<open>Properties of resize_labels\<close>

lemma collect_map_cong:
  "\<forall>x \<in> set xs. f x = g x \<Longrightarrow> collect (map f xs) = collect (map g xs)"
proof -
  assume "\<forall>x \<in> set xs. f x = g x"
  then have "map f xs = map g xs" by simp
  then show ?thesis by (rule arg_cong)
qed

lemma collect_length: "collect rs = Inr xs \<Longrightarrow> length xs = length rs"
proof (induction rs arbitrary: xs)
  case Nil
  then show ?case by simp
next
  case (Cons r rs)
  then show ?case by (cases r) (auto split: sum.splits)
qed

lemma collect_nth: "collect rs = Inr xs \<Longrightarrow> i < length rs \<Longrightarrow> rs ! i = Inr (xs ! i)"
proof (induction rs arbitrary: xs i)
  case Nil
  then show ?case by simp
next
  case (Cons r rs)
  then show ?case by (cases r; cases i) (auto split: sum.splits)
qed

text \<open>
  Where \<open>np.squeeze\<close> removes the batch axis only, which is the case for slices of at
  least two rows and two columns, a stack that is not empty is resized slice by
  slice, as the 2-D call resizes each slice.
\<close>

lemma np_squeeze_proper:
  "2 \<le> length s \<Longrightarrow> 2 \<le> length (hd s) \<Longrightarrow> np_squeeze s = Matrix s"
  by (auto simp: np_squeeze_def)

lemma resize_labels_stack_of_proper_slices:
  assumes "labels \<noteq> []"
    and "\<forall>s \<in> set labels. 2 \<le> length s \<and> 2 \<le> length (hd s)"
    and "resize_labels (Rank3 labels) dsize = Inr out"
  shows "\<exists>label_list. out = Rank3 label_list \<and> length label_list = length labels
     \<and> (\<forall>i < length labels. resize_labels (Rank2 (labels ! i)) dsize = Inr (Rank2 (label_list ! i)))"
proof -
  have "collect (map (\<lambda>x. cv2_resize (to_mat (np_squeeze x)) dsize) labels) =
        collect (map (\<lambda>x. cv2_resize x dsize) labels)"
    using assms(2) by (intro collect_map_cong) (simp add: np_squeeze_proper)
  with assms(1,3) obtain label_list
    where c: "collect (map (\<lambda>x. cv2_resize x dsize) labels) = Inr label_list"
      and out: "out = Rank3 label_list"
    by (auto split: sum.splits)
  from collect_length [OF c] have len: "length label_list = length labels" by simp
  have "resize_labels (Rank2 (labels ! i)) dsize = Inr (Rank2 (label_list ! i))"
    if "i < length labels" for i
    using collect_nth [OF c, of i] that by simp
  with out len show ?thesis by blast
qed

text \<open>
  Claim C9 at a stack of one slice of height 1. \<open>np.squeeze\<close> removes the height axis
  together with the batch axis, OpenCV reads the vector that is left as a column of
  two rows, and the slice of the result is \<open>[[1, 1]]\<close>, where the 2-D call on the same
  slice returns \<open>[[1, 2]]\<close>. An empty stack raises in \<open>np.split\<close>.
\<close>

theorem resize_labels_squeezes_height:
  "resize_labels (Rank3 [[[1, 2]]]) (2, 1) = Inr (Rank3 [[[1, 1]]])
   \<and> resize_labels (Rank2 [[1, 2]]) (2, 1) = Inr (Rank2 [[1, 2]])
   \<and> resize_labels (Rank3 []) (2, 1) = Inl ZeroDivisionError"
  by code_simp

end
